theory Spec2Isabelle
  imports Complex_Main "HOL-Library.AList" "HOL-Library.Sublist" "HOL-Library.Multiset"
begin

section \<open>Conventions\<close>

text \<open>
  The program is the Python package under \<^verbatim>\<open>src/\<close>: the role allocator
  (\<^verbatim>\<open>council/hats.py\<close>), the retrying chat client (\<^verbatim>\<open>services/openrouter.py\<close>),
  the moderator (\<^verbatim>\<open>council/moderator.py\<close>) and the session orchestrator
  (\<^verbatim>\<open>council/session.py\<close>).

  \<^item> A Python \<^verbatim>\<open>str\<close> is a \<open>string\<close> holding its UTF-8 bytes. The model
    concatenates and compares such strings, which commutes with the encoding; the three
    functions that look at single characters (\<open>ascii_lower\<close>, \<open>ascii_strip\<close> and
    \<open>take_code_points\<close>) say how they read the bytes.
  \<^item> An exception is a value \<open>Exn cls msg\<close>: its class and the text \<^verbatim>\<open>str(e)\<close>.
  \<^item> A method name that starts with an underscore loses it (\<^verbatim>\<open>_stream_chat\<close> is
    \<open>stream_chat\<close>), since an Isabelle name starts with a letter.
  \<^item> Everything the program does not control is an explicit argument: the numbers drawn
    from \<^verbatim>\<open>random\<close>, what the model provider answers at each attempt, what the
    search service answers, and when the user presses the stop or the summarize button.
\<close>

datatype exn_class =
  RateLimitError | APIStatusError | IndexError | KeyError | TypeError | JSONDecodeError |
  OtherException

datatype exn = Exn exn_class string

fun str_exn :: "exn \<Rightarrow> string" where
  "str_exn (Exn c msg) = msg"

fun exn_class_of :: "exn \<Rightarrow> exn_class" where
  "exn_class_of (Exn c msg) = c"

text \<open>\<^verbatim>\<open>str(n)\<close> for a non-negative integer, and \<^verbatim>\<open>sep.join(xs)\<close>.\<close>

fun str_nat :: "nat \<Rightarrow> string" where
  "str_nat n =
     (if n < 10 then [char_of (48 + n)]
      else str_nat (n div 10) @ [char_of (48 + n mod 10)])"

declare str_nat.simps [simp del]

fun join :: "string \<Rightarrow> string list \<Rightarrow> string" where
  "join sep [] = []"
| "join sep [x] = x"
| "join sep (x # y # ys) = x @ sep @ join sep (y # ys)"

text \<open>
  \<^verbatim>\<open>random.choice(seq)\<close>: IndexError on an empty sequence, otherwise the element at a
  random index below \<^verbatim>\<open>len(seq)\<close>. The argument \<open>r\<close> is the number the generator
  delivers; reducing it modulo the length reaches every index.
\<close>

definition random_choice :: "'a list \<Rightarrow> nat \<Rightarrow> exn + 'a" where
  "random_choice seq r =
     (if seq = [] then Inl (Exn IndexError ''Cannot choose from an empty sequence'')
      else Inr (seq ! (r mod length seq)))"

section \<open>The role allocator: council/hats.py\<close>

datatype HatColor = WHITE | RED | BLACK | YELLOW | GREEN

text \<open>
  One entry of \<^verbatim>\<open>HAT_DEFINITIONS\<close>. The fifth key, \<^verbatim>\<open>instruction\<close>, is prompt
  text that only the prompt templates read; it is left out.
\<close>

record hat_info =
  color :: string
  emoji :: string
  name :: string
  description :: string

fun HAT_DEFINITIONS :: "HatColor \<Rightarrow> hat_info" where
  "HAT_DEFINITIONS WHITE = \<lparr>color = ''white'',
     emoji = [CHR 0xE2, CHR 0x9A, CHR 0xAA],
     name = [CHR 0xE7, CHR 0x99, CHR 0xBD, CHR 0xE5, CHR 0xB8, CHR 0xBD],
     description = [CHR 0xE4, CHR 0xBA, CHR 0x8B, CHR 0xE5, CHR 0xAF, CHR 0xA6, CHR 0xE8, CHR 0x88,
       CHR 0x87, CHR 0xE6, CHR 0x95, CHR 0xB8, CHR 0xE6, CHR 0x93, CHR 0x9A]\<rparr>"
| "HAT_DEFINITIONS RED = \<lparr>color = ''red'',
     emoji = [CHR 0xF0, CHR 0x9F, CHR 0x94, CHR 0xB4],
     name = [CHR 0xE7, CHR 0xB4, CHR 0x85, CHR 0xE5, CHR 0xB8, CHR 0xBD],
     description = [CHR 0xE6, CHR 0x83, CHR 0x85, CHR 0xE6, CHR 0x84, CHR 0x9F, CHR 0xE8, CHR 0x88,
       CHR 0x87, CHR 0xE7, CHR 0x9B, CHR 0xB4, CHR 0xE8, CHR 0xA6, CHR 0xBA]\<rparr>"
| "HAT_DEFINITIONS BLACK = \<lparr>color = ''black'',
     emoji = [CHR 0xE2, CHR 0x9A, CHR 0xAB],
     name = [CHR 0xE9, CHR 0xBB, CHR 0x91, CHR 0xE5, CHR 0xB8, CHR 0xBD],
     description = [CHR 0xE6, CHR 0x89, CHR 0xB9, CHR 0xE5, CHR 0x88, CHR 0xA4, CHR 0xE8, CHR 0x88,
       CHR 0x87, CHR 0xE9, CHR 0xA2, CHR 0xA8, CHR 0xE9, CHR 0x9A, CHR 0xAA]\<rparr>"
| "HAT_DEFINITIONS YELLOW = \<lparr>color = ''yellow'',
     emoji = [CHR 0xF0, CHR 0x9F, CHR 0x9F, CHR 0xA1],
     name = [CHR 0xE9, CHR 0xBB, CHR 0x83, CHR 0xE5, CHR 0xB8, CHR 0xBD],
     description = [CHR 0xE6, CHR 0xA8, CHR 0x82, CHR 0xE8, CHR 0xA7, CHR 0x80, CHR 0xE8, CHR 0x88,
       CHR 0x87, CHR 0xE5, CHR 0x83, CHR 0xB9, CHR 0xE5, CHR 0x80, CHR 0xBC]\<rparr>"
| "HAT_DEFINITIONS GREEN = \<lparr>color = ''green'',
     emoji = [CHR 0xF0, CHR 0x9F, CHR 0x9F, CHR 0xA2],
     name = [CHR 0xE7, CHR 0xB6, CHR 0xA0, CHR 0xE5, CHR 0xB8, CHR 0xBD],
     description = [CHR 0xE5, CHR 0x89, CHR 0xB5, CHR 0xE6, CHR 0x84, CHR 0x8F, CHR 0xE8, CHR 0x88,
       CHR 0x87, CHR 0xE6, CHR 0x9B, CHR 0xBF, CHR 0xE4, CHR 0xBB, CHR 0xA3, CHR 0xE6, CHR 0x96,
       CHR 0xB9, CHR 0xE6, CHR 0xA1, CHR 0x88]\<rparr>"

text \<open>
  The two mutable fields of the dataclass. \<^verbatim>\<open>FIRST_SPEAKER_HATS\<close> and
  \<^verbatim>\<open>MEMBER_HATS\<close> are fields too, but no code of the repository passes them to the
  constructor or assigns them, so they are the constants their defaults give.
\<close>

record HatManager =
  hat_counts :: "HatColor \<rightharpoonup> nat"
  available_hats :: "HatColor list"

definition FIRST_SPEAKER_HATS :: "HatColor list" where
  "FIRST_SPEAKER_HATS = [WHITE, GREEN]"

definition MEMBER_HATS :: "HatColor list" where
  "MEMBER_HATS = [WHITE, RED, BLACK, YELLOW, GREEN]"

text \<open>\<^verbatim>\<open>HatManager()\<close>: every count is 0 and the pool is the empty list.\<close>

definition HatManager_init :: HatManager where
  "HatManager_init = \<lparr>hat_counts = (\<lambda>h. Some 0), available_hats = []\<rparr>"

text \<open>\<^verbatim>\<open>self.hat_counts.get(h, 0)\<close>\<close>

definition get_count :: "(HatColor \<rightharpoonup> nat) \<Rightarrow> HatColor \<Rightarrow> nat" where
  "get_count d h = (case d h of None \<Rightarrow> 0 | Some c \<Rightarrow> c)"

text \<open>
  \<^verbatim>\<open>assign_hat\<close>, with the number \<open>r\<close> that \<^verbatim>\<open>random.choice\<close> draws. \<open>avail0\<close> is
  the pool after the refill of an empty pool, \<open>avail1\<close> the pool after the forced refill
  of the first-speaker branch. \<^verbatim>\<open>list.remove\<close> deletes the first occurrence; the
  selected hat comes from the pool, so its ValueError cannot arise.
\<close>

definition assign_hat :: "HatManager \<Rightarrow> bool \<Rightarrow> nat \<Rightarrow> exn + (HatColor \<times> HatManager)" where
  "assign_hat m is_first_speaker r =
     (let avail0 = (if available_hats m = [] then MEMBER_HATS else available_hats m);
          cand0 = filter (\<lambda>h. h \<in> set FIRST_SPEAKER_HATS) avail0;
          avail1 = (if is_first_speaker \<and> cand0 = [] then MEMBER_HATS else avail0);
          candidates =
            (if is_first_speaker
             then (if cand0 = [] then filter (\<lambda>h. h \<in> set FIRST_SPEAKER_HATS) avail1 else cand0)
             else avail1)
      in case random_choice candidates r of
           Inl e \<Rightarrow> Inl e
         | Inr selected \<Rightarrow>
             Inr (selected,
                  m\<lparr>available_hats := remove1 selected avail1,
                    hat_counts := (hat_counts m)(selected \<mapsto> get_count (hat_counts m) selected + 1)\<rparr>))"

definition get_hat_info :: "HatColor \<Rightarrow> hat_info" where
  "get_hat_info hat = HAT_DEFINITIONS hat"

definition get_unused_hats :: "HatManager \<Rightarrow> HatColor list" where
  "get_unused_hats m = filter (\<lambda>h. get_count (hat_counts m) h = 0) MEMBER_HATS"

definition get_distribution_summary :: "HatManager \<Rightarrow> string" where
  "get_distribution_summary m =
     join '' | ''
       (map (\<lambda>hat. emoji (HAT_DEFINITIONS hat) @ '' '' @ name (HAT_DEFINITIONS hat) @ '': '' @
                   str_nat (get_count (hat_counts m) hat) @ [CHR 0xE6, CHR 0xAC, CHR 0xA1])
            MEMBER_HATS)"

definition reset :: "HatManager \<Rightarrow> HatManager" where
  "reset m = m\<lparr>hat_counts := (\<lambda>h. Some 0), available_hats := MEMBER_HATS\<rparr>"

text \<open>
  A run of consecutive calls of \<^verbatim>\<open>assign_hat\<close>: each call has its flag and its random
  number; the hats come back in call order. An exception ends the run.
\<close>

fun assign_hats :: "HatManager \<Rightarrow> (bool \<times> nat) list \<Rightarrow> exn + (HatColor list \<times> HatManager)" where
  "assign_hats m [] = Inr ([], m)"
| "assign_hats m ((is_first, r) # calls) =
     (case assign_hat m is_first r of
        Inl e \<Rightarrow> Inl e
      | Inr (h, m') \<Rightarrow>
          (case assign_hats m' calls of
             Inl e \<Rightarrow> Inl e
           | Inr (hs, m'') \<Rightarrow> Inr (h # hs, m'')))"

text \<open>
  The operations a client of the allocator can call, and what each lets it observe.
\<close>

datatype hat_op = AssignHat bool nat | GetUnusedHats | GetDistributionSummary | Reset

datatype hat_obs =
  Assigned HatColor | Raised exn | UnusedHats "HatColor list" | Summary string | Unit

fun hat_run :: "HatManager \<Rightarrow> hat_op list \<Rightarrow> hat_obs list" where
  "hat_run m [] = []"
| "hat_run m (AssignHat is_first r # ops) =
     (case assign_hat m is_first r of
        Inl e \<Rightarrow> [Raised e]
      | Inr (h, m') \<Rightarrow> Assigned h # hat_run m' ops)"
| "hat_run m (GetUnusedHats # ops) = UnusedHats (get_unused_hats m) # hat_run m ops"
| "hat_run m (GetDistributionSummary # ops) = Summary (get_distribution_summary m) # hat_run m ops"
| "hat_run m (Reset # ops) = Unit # hat_run (reset m) ops"

text \<open>
  The pool a call of \<^verbatim>\<open>assign_hat\<close> draws from once its first statement has run, and
  the two pools the claims call fresh: the empty one of \<^verbatim>\<open>HatManager()\<close> and the full
  one that \<^verbatim>\<open>reset()\<close> leaves.
\<close>

definition pool :: "HatManager \<Rightarrow> HatColor list" where
  "pool m = (if available_hats m = [] then MEMBER_HATS else available_hats m)"

definition fresh_pool :: "HatManager \<Rightarrow> bool" where
  "fresh_pool m = (available_hats m = [] \<or> available_hats m = MEMBER_HATS)"

text \<open>
  A call draws without any refill when the pool is not empty and, for a first-speaker
  call, still holds a first-speaker hat.
\<close>

definition no_refill :: "HatColor list \<Rightarrow> bool \<Rightarrow> bool" where
  "no_refill avail f = (avail \<noteq> [] \<and> (f \<longrightarrow> (\<exists>h \<in> set avail. h \<in> set FIRST_SPEAKER_HATS)))"

section \<open>The retrying client: services/openrouter.py\<close>

text \<open>
  \<^verbatim>\<open>REQUEST_DELAY = 1.5\<close>, \<^verbatim>\<open>BASE_RETRY_DELAY = 2\<close>, \<^verbatim>\<open>DEFAULT_MAX_RETRIES = 2\<close>.
  Delays are in seconds, as rationals.
\<close>

definition REQUEST_DELAY :: rat where
  "REQUEST_DELAY = 3 / 2"

definition BASE_RETRY_DELAY :: rat where
  "BASE_RETRY_DELAY = 2"

definition DEFAULT_MAX_RETRIES :: int where
  "DEFAULT_MAX_RETRIES = 2"

text \<open>
  What one call of the client does, in order: \<open>Create\<close> is one call of
  \<^verbatim>\<open>self.client.chat.completions.create\<close>, \<open>Sleep d\<close> one \<^verbatim>\<open>asyncio.sleep(d)\<close>,
  \<open>Yield s\<close> one fragment handed to the consumer of the stream.
\<close>

datatype client_event = Create | Sleep rat | Yield string

text \<open>
  The provider's answer to a non-streaming request: the \<^verbatim>\<open>choices\<close> of the response, each
  with \<^verbatim>\<open>message.content\<close> (possibly None), \<^verbatim>\<open>message.tool_calls\<close> (possibly None) and
  \<^verbatim>\<open>finish_reason\<close>.
\<close>

record tool_call =
  tc_id :: string
  tc_name :: string
  tc_arguments :: string

record choice =
  message_content :: "string option"
  message_tool_calls :: "tool_call list option"
  choice_finish_reason :: string

type_synonym raw_response = "choice list"

text \<open>The dict that \<^verbatim>\<open>_parse_response\<close> builds.\<close>

record response =
  resp_content :: string
  tool_calls :: "tool_call list option"
  finish_reason :: string

text \<open>
  \<^verbatim>\<open>_parse_response\<close>: \<^verbatim>\<open>response.choices[0]\<close> raises IndexError on an empty list;
  \<^verbatim>\<open>content or ""\<close>; \<^verbatim>\<open>tool_calls\<close> stays None unless the message has a non-empty list.
\<close>

definition parse_response :: "raw_response \<Rightarrow> exn + response" where
  "parse_response r =
     (case r of
        [] \<Rightarrow> Inl (Exn IndexError ''list index out of range'')
      | c # _ \<Rightarrow>
          Inr \<lparr>resp_content = (case message_content c of None \<Rightarrow> [] | Some t \<Rightarrow> t),
               tool_calls =
                 (case message_tool_calls c of
                    None \<Rightarrow> None
                  | Some tcs \<Rightarrow> (if tcs = [] then None else Some tcs)),
               finish_reason = choice_finish_reason c\<rparr>)"

text \<open>\<^verbatim>\<open>except (RateLimitError, APIStatusError)\<close>\<close>

definition retryable :: "exn \<Rightarrow> bool" where
  "retryable e = (exn_class_of e = RateLimitError \<or> exn_class_of e = APIStatusError)"

text \<open>
  \<^verbatim>\<open>_chat_with_retry\<close>. The provider is a function from the attempt number to what
  \<^verbatim>\<open>create\<close> does at that attempt: it raises (\<open>Inl\<close>) or answers (\<open>Inr\<close>). The loop
  runs over \<^verbatim>\<open>range(max_retries + 1)\<close>; \<open>last_error\<close> is the loop's variable. The
  statement after the loop, \<^verbatim>\<open>raise last_error\<close>, is reached only when the range is empty;
  it then raises None, a TypeError.
\<close>

fun chat_with_retry_loop ::
  "int \<Rightarrow> (nat \<Rightarrow> exn + raw_response) \<Rightarrow> nat list \<Rightarrow> exn option \<Rightarrow>
   client_event list \<times> (exn + response)" where
  "chat_with_retry_loop max_retries provider [] last_error =
     ([], case last_error of
            None \<Rightarrow> Inl (Exn TypeError ''exceptions must derive from BaseException'')
          | Some e \<Rightarrow> Inl e)"
| "chat_with_retry_loop max_retries provider (attempt # rest) last_error =
     (case provider attempt of
        Inr r \<Rightarrow> ([Create, Sleep REQUEST_DELAY], parse_response r)
      | Inl e \<Rightarrow>
          (if retryable e then
             (if int attempt < max_retries then
                (let delay = BASE_RETRY_DELAY * 2 ^ attempt;
                     (tr, res) = chat_with_retry_loop max_retries provider rest (Some e)
                 in (Create # Sleep delay # tr, res))
              else ([Create], Inl e))
           else ([Create], Inl e)))"

definition chat_with_retry ::
  "int \<Rightarrow> (nat \<Rightarrow> exn + raw_response) \<Rightarrow> client_event list \<times> (exn + response)" where
  "chat_with_retry max_retries provider =
     chat_with_retry_loop max_retries provider [0..<nat (max_retries + 1)] None"

text \<open>
  A streamed chunk is the list of its \<^verbatim>\<open>choices\<close>, each the \<^verbatim>\<open>delta.content\<close> it
  carries (possibly None). \<^verbatim>\<open>_stream_chat\<close> yields the content of the first choice when
  there is a choice and its content is neither None nor empty.
\<close>

type_synonym chunk = "string option list"

fun chunk_text :: "chunk \<Rightarrow> string list" where
  "chunk_text [] = []"
| "chunk_text (None # _) = []"
| "chunk_text (Some t # _) = (if t = [] then [] else [t])"

text \<open>
  One streaming attempt: the chunks the provider delivers, and the exception that ends
  the attempt, if any (raised by \<^verbatim>\<open>create\<close> when there are no chunks, by the iteration
  otherwise).
\<close>

type_synonym stream_attempt = "chunk list \<times> exn option"

text \<open>
  \<^verbatim>\<open>_stream_chat\<close>. The result is what the generator did and the exception it ended
  with, if any. After the loop, \<^verbatim>\<open>if last_error: raise last_error\<close>.
\<close>

fun stream_chat_loop ::
  "int \<Rightarrow> (nat \<Rightarrow> stream_attempt) \<Rightarrow> nat list \<Rightarrow> exn option \<Rightarrow>
   client_event list \<times> exn option" where
  "stream_chat_loop max_retries provider [] last_error = ([], last_error)"
| "stream_chat_loop max_retries provider (attempt # rest) last_error =
     (let (chunks, err) = provider attempt;
          ys = map Yield (concat (map chunk_text chunks))
      in case err of
           None \<Rightarrow> (Create # ys @ [Sleep REQUEST_DELAY], None)
         | Some e \<Rightarrow>
             (if retryable e then
                (if int attempt < max_retries then
                   (let delay = BASE_RETRY_DELAY * 2 ^ attempt;
                        (tr, res) = stream_chat_loop max_retries provider rest (Some e)
                    in (Create # ys @ Sleep delay # tr, res))
                 else (Create # ys, Some e))
              else (Create # ys, Some e)))"

definition stream_chat ::
  "int \<Rightarrow> (nat \<Rightarrow> stream_attempt) \<Rightarrow> client_event list \<times> exn option" where
  "stream_chat max_retries provider =
     stream_chat_loop max_retries provider [0..<nat (max_retries + 1)] None"

text \<open>
  \<^verbatim>\<open>chat\<close> dispatches on \<^verbatim>\<open>stream\<close> to the two functions above; \<^verbatim>\<open>chat_with_tools\<close>
  is \<^verbatim>\<open>chat\<close> with \<^verbatim>\<open>stream=False\<close>.
\<close>

definition chat_with_tools ::
  "int \<Rightarrow> (nat \<Rightarrow> exn + raw_response) \<Rightarrow> client_event list \<times> (exn + response)" where
  "chat_with_tools max_retries provider = chat_with_retry max_retries provider"

text \<open>The fragments a consumer of the stream receives, in order.\<close>

fun yielded :: "client_event list \<Rightarrow> string list" where
  "yielded [] = []"
| "yielded (Yield t # tr) = t # yielded tr"
| "yielded (_ # tr) = yielded tr"

text \<open>
  The trace of \<open>k\<close> failed attempts, each followed by its backoff sleep: what the claims
  call the retries that came before attempt \<open>k\<close>.
\<close>

definition backoff :: "nat \<Rightarrow> client_event list" where
  "backoff k = concat (map (\<lambda>a. [Create, Sleep (BASE_RETRY_DELAY * 2 ^ a)]) [0..<k])"

definition stream_backoff :: "(nat \<Rightarrow> stream_attempt) \<Rightarrow> nat \<Rightarrow> client_event list" where
  "stream_backoff provider k =
     concat (map (\<lambda>a. Create # map Yield (concat (map chunk_text (fst (provider a)))) @
                      [Sleep (BASE_RETRY_DELAY * 2 ^ a)]) [0..<k])"

text \<open>An attempt that raises an exception the client retries.\<close>

definition retryable_failure :: "exn + 'a \<Rightarrow> bool" where
  "retryable_failure x = (case x of Inl e \<Rightarrow> retryable e | Inr _ \<Rightarrow> False)"

definition stream_retryable_failure :: "stream_attempt \<Rightarrow> bool" where
  "stream_retryable_failure x = (case snd x of Some e \<Rightarrow> retryable e | None \<Rightarrow> False)"

text \<open>Two providers for a call with two retries: two retryable failures, then an answer.\<close>

definition example_provider :: "nat \<Rightarrow> exn + raw_response" where
  "example_provider a =
     (if a = 0 then Inl (Exn RateLimitError ''429'')
      else if a = 1 then Inl (Exn APIStatusError ''502'')
      else Inr [\<lparr>message_content = Some ''ok'', message_tool_calls = None,
                 choice_finish_reason = ''stop''\<rparr>])"

definition example_stream_provider :: "nat \<Rightarrow> stream_attempt" where
  "example_stream_provider a =
     (if a = 0 then ([[Some ''Hel'']], Some (Exn RateLimitError ''429''))
      else if a = 1 then ([], Some (Exn APIStatusError ''502''))
      else ([[Some ''Hel''], [Some ''lo''], []], None))"

section \<open>The data model: models.py\<close>

text \<open>
  Field names are global in a theory, so where two classes share a field name one of them
  gets a prefix: \<open>member_\<close> and \<open>moderator_\<close> for the two config classes, \<open>ev_\<close> for
  \<^verbatim>\<open>SessionEvent\<close>, \<open>session_\<close> for \<^verbatim>\<open>Session.members\<close>.
\<close>

datatype Role = SYSTEM | USER | ASSISTANT | MODERATOR | MEMBER

datatype MessageType = OPENING | SPEECH | ROUND_SUMMARY | FINAL_SUMMARY | SEARCH_RESULT

record Message =
  role :: Role
  content :: string
  speaker_name :: string
  model_id :: string
  message_type :: MessageType
  sources :: "string list"
  hat_color :: string
  hat_name :: string

record MemberConfig =
  member_model_id :: string
  display_name :: string
  member_system_prompt :: string
  enabled :: bool

record ModeratorConfig =
  moderator_model_id :: string
  moderator_display_name :: string
  moderator_system_prompt :: string

record SessionConfig =
  topic :: string
  total_rounds :: int
  max_tokens :: int
  moderator :: ModeratorConfig
  members :: "MemberConfig list"

datatype SessionState = IDLE | RUNNING | SUMMARIZING | FINISHED

section \<open>The moderator: council/moderator.py\<close>

text \<open>
  \<^verbatim>\<open>x in y\<close> on strings: \<open>x\<close> occurs in \<open>y\<close> as a contiguous substring.
\<close>

fun py_in :: "string \<Rightarrow> string \<Rightarrow> bool" where
  "py_in x [] = (x = [])"
| "py_in x (c # cs) = (prefix x (c # cs) \<or> py_in x cs)"

text \<open>
  \<^verbatim>\<open>select_next_speaker\<close>. The prompt it sends is built from the topic, the history and
  the round numbers; the provider's answers are arguments of the model, so the prompt is
  left out. \<open>lower\<close> and \<open>strip\<close> stand for \<^verbatim>\<open>str.lower\<close> and \<^verbatim>\<open>str.strip\<close>, which
  work on Unicode code points. The call uses the client's default of two retries; an
  exception of the client propagates. The \<^verbatim>\<open>for\<close> loop returns the first member that
  matches.
\<close>

definition select_next_speaker ::
  "(string \<Rightarrow> string) \<Rightarrow> (string \<Rightarrow> string) \<Rightarrow> (nat \<Rightarrow> exn + raw_response) \<Rightarrow>
   string list \<Rightarrow> exn + string" where
  "select_next_speaker lower strip provider remaining_members =
     (case snd (chat_with_retry DEFAULT_MAX_RETRIES provider) of
        Inl e \<Rightarrow> Inl e
      | Inr response \<Rightarrow>
          (let selected = strip (resp_content response)
           in case find (\<lambda>member. py_in (lower member) (lower selected) \<or>
                                  py_in (lower selected) (lower member)) remaining_members of
                Some member \<Rightarrow> Inr member
              | None \<Rightarrow> Inr (case remaining_members of [] \<Rightarrow> [] | m # _ \<Rightarrow> m)))"

text \<open>A message of the chat context sent to the provider (a dict with a \<^verbatim>\<open>role\<close> key).\<close>

datatype chat_message =
  SystemMessage string
| UserMessage string
| AssistantMessage string "tool_call list"
| ToolMessage string string

text \<open>What \<^verbatim>\<open>SearchService.search\<close> returns; it catches every exception itself.\<close>

record search_results =
  search_error :: "string option"
  answer :: string
  results :: "(string \<times> string \<times> string) list"

text \<open>
  \<^verbatim>\<open>SearchService.format_results_for_ai\<close> of \<^verbatim>\<open>services/search.py\<close>. A result is
  its title, its url and its content. \<^verbatim>\<open>content[:200]\<close> takes the first 200 code points;
  on UTF-8 bytes, a byte from 0x80 to 0xBF continues the code point of the byte before it.
\<close>

fun take_code_points :: "nat \<Rightarrow> string \<Rightarrow> string" where
  "take_code_points n [] = []"
| "take_code_points n (c # cs) =
     (if 128 \<le> (of_char c :: nat) \<and> (of_char c :: nat) < 192 then c # take_code_points n cs
      else (case n of 0 \<Rightarrow> [] | Suc m \<Rightarrow> c # take_code_points m cs))"

definition SearchService_format_results_for_ai :: "search_results \<Rightarrow> string" where
  "SearchService_format_results_for_ai search_results =
     (case search_error search_results of
        Some err \<Rightarrow>
          [CHR 0xE6, CHR 0x90, CHR 0x9C, CHR 0xE5, CHR 0xB0, CHR 0x8B, CHR 0xE5, CHR 0xA4, CHR 0xB1,
           CHR 0xE6, CHR 0x95, CHR 0x97] @ '': '' @ err
      | None \<Rightarrow>
          join [CHR 0x0A]
            ([''### '' @ [CHR 0xE6, CHR 0x90, CHR 0x9C, CHR 0xE5, CHR 0xB0, CHR 0x8B, CHR 0xE7, CHR 0xB5,
                          CHR 0x90, CHR 0xE6, CHR 0x9E, CHR 0x9C, CHR 0x0A]] @
             (if answer search_results \<noteq> []
              then [''**'' @ [CHR 0xE6, CHR 0x91, CHR 0x98, CHR 0xE8, CHR 0xA6, CHR 0x81] @ ''**: '' @
                    answer search_results @ [CHR 0x0A]]
              else []) @
             [''**'' @ [CHR 0xE4, CHR 0xBE, CHR 0x86, CHR 0xE6, CHR 0xBA, CHR 0x90] @ ''**:''] @
             concat (map (\<lambda>(i, title, url, content).
                            [[CHR 0x0A] @ str_nat i @ ''. **'' @ title @ ''**'',
                             ''   - '' @ [CHR 0xE7, CHR 0xB6, CHR 0xB2, CHR 0xE5, CHR 0x9D, CHR 0x80] @
                             '': '' @ url,
                             ''   - '' @ [CHR 0xE5, CHR 0x85, CHR 0xA7, CHR 0xE5, CHR 0xAE, CHR 0xB9] @
                             '': '' @ take_code_points 200 content @ ''...''])
                       (zip [1..<Suc (length (results search_results))]
                            (results search_results)))))"

text \<open>
  Everything a run does not control.
  \<^item> \<open>signals n\<close>: whether \<^verbatim>\<open>request_stop\<close> and \<^verbatim>\<open>request_summary\<close> have been called
    by the time the generator resumes after its \<open>n\<close>-th event. Every await of the run is
    followed by a yield before the next check of a flag, so this loses no behaviour.
  \<^item> The provider's attempts for each logical call: the opening, the speech and the
    after-speech summary of each turn (indexed by the speech counter), and the two calls of
    the final summary.
  \<^item> The random draws of each round's shuffle and of each turn's hat.
  \<^item> \<open>json_query\<close> is \<^verbatim>\<open>json.loads(arguments).get("query", "")\<close>, \<open>search\<close> the search
    service, \<open>format_results_for_ai\<close> the formatter of its results. The properties below
    hold for every formatter; the examples use \<open>SearchService_format_results_for_ai\<close>.
  \<^item> The prompt texts of \<^verbatim>\<open>council/prompts.py\<close> that the final summary uses.
\<close>

record world =
  signals :: "nat \<Rightarrow> bool \<times> bool"
  opening_stream :: "nat \<Rightarrow> stream_attempt"
  speak_stream :: "nat \<Rightarrow> nat \<Rightarrow> stream_attempt"
  summary_stream :: "nat \<Rightarrow> nat \<Rightarrow> stream_attempt"
  final_tools :: "nat \<Rightarrow> exn + raw_response"
  final_stream :: "nat \<Rightarrow> stream_attempt"
  shuffle_draws :: "nat \<Rightarrow> nat \<Rightarrow> nat"
  hat_draws :: "nat \<Rightarrow> nat"
  json_query :: "string \<Rightarrow> exn + string"
  search :: "string \<Rightarrow> search_results"
  format_results_for_ai :: "search_results \<Rightarrow> string"
  MODERATOR_SYSTEM_PROMPT :: string
  get_final_summary_prompt :: "string \<Rightarrow> string \<Rightarrow> string"

text \<open>
  The first loop of \<^verbatim>\<open>_chat_with_optional_search\<close>: a tool call named
  \<^verbatim>\<open>web_search\<close> is parsed and sent to the search service, any other is skipped. The
  result is the queries searched, in order, and either the exception of \<^verbatim>\<open>json.loads\<close>
  or the list \<^verbatim>\<open>search_results\<close>. (\<^verbatim>\<open>on_search\<close> is None at the only call site.)
\<close>

fun dispatch_searches ::
  "world \<Rightarrow> tool_call list \<Rightarrow> string list \<times> (exn + (tool_call \<times> string) list)" where
  "dispatch_searches w [] = ([], Inr [])"
| "dispatch_searches w (tc # tcs) =
     (if tc_name tc = ''web_search'' then
        (case json_query w (tc_arguments tc) of
           Inl e \<Rightarrow> ([], Inl e)
         | Inr query \<Rightarrow>
             (let result = search w query;
                  (queries, r) = dispatch_searches w tcs
              in (query # queries,
                  case r of
                    Inl e \<Rightarrow> Inl e
                  | Inr srs \<Rightarrow> Inr ((tc, format_results_for_ai w result) # srs))))
      else dispatch_searches w tcs)"

text \<open>
  The calls \<^verbatim>\<open>_chat_with_optional_search\<close> makes, in order, and what it leaves behind:
  the fragments it yields, the exception it ends with, and the list \<^verbatim>\<open>messages\<close>, which
  it extends in place.
\<close>

datatype moderator_call =
  ToolsCall "chat_message list" | SearchCall string | StreamCall "chat_message list"

record search_chat_result =
  out_chunks :: "string list"
  out_raised :: "exn option"
  out_messages :: "chat_message list"
  out_calls :: "moderator_call list"

definition chat_with_optional_search ::
  "world \<Rightarrow> chat_message list \<Rightarrow> int \<Rightarrow> search_chat_result" where
  "chat_with_optional_search w messages max_retries =
     (case snd (chat_with_tools max_retries (final_tools w)) of
        Inl e \<Rightarrow>
          \<lparr>out_chunks = [], out_raised = Some e, out_messages = messages,
           out_calls = [ToolsCall messages]\<rparr>
      | Inr response \<Rightarrow>
          (case tool_calls response of
             Some (tc # tcs) \<Rightarrow>
               (let (queries, r) = dispatch_searches w (tc # tcs)
                in case r of
                     Inl e \<Rightarrow>
                       \<lparr>out_chunks = [], out_raised = Some e, out_messages = messages,
                        out_calls = ToolsCall messages # map SearchCall queries\<rparr>
                   | Inr srs \<Rightarrow>
                       (let messages' =
                              messages @ [AssistantMessage (resp_content response) (tc # tcs)] @
                              map (\<lambda>(tc, result). ToolMessage (tc_id tc) result) srs;
                            (tr, err) = stream_chat max_retries (final_stream w)
                        in \<lparr>out_chunks = yielded tr, out_raised = err, out_messages = messages',
                            out_calls = ToolsCall messages # map SearchCall queries @
                                        [StreamCall messages']\<rparr>))
           | _ \<Rightarrow>
               \<lparr>out_chunks = (if resp_content response \<noteq> [] then [resp_content response] else []),
                out_raised = None, out_messages = messages,
                out_calls = [ToolsCall messages]\<rparr>))"

text \<open>\<^verbatim>\<open>_format_full_history\<close> and the \<^verbatim>\<open>system_prompt\<close> property.\<close>

fun format_line :: "Message \<Rightarrow> string list" where
  "format_line msg =
     (if message_type msg = OPENING then
        [''**'' @ [CHR 0xE4, CHR 0xB8, CHR 0xBB, CHR 0xE6, CHR 0x8C, CHR 0x81, CHR 0xE4, CHR 0xBA,
           CHR 0xBA, CHR 0xE9, CHR 0x96, CHR 0x8B, CHR 0xE5, CHR 0xA0, CHR 0xB4] @ ''**'' @
         [CHR 0xEF, CHR 0xBC, CHR 0x9A, CHR 0x0A] @ content msg @ [CHR 0x0A]]
      else if message_type msg = SPEECH then
        [''**'' @ speaker_name msg @ ''**'' @ [CHR 0xEF, CHR 0xBC, CHR 0x9A, CHR 0x0A] @
         content msg @ [CHR 0x0A]]
      else if message_type msg = ROUND_SUMMARY then
        [''**'' @ [CHR 0xE5, CHR 0xB0, CHR 0x8F, CHR 0xE7, CHR 0xB5, CHR 0x90] @ ''**'' @
         [CHR 0xEF, CHR 0xBC, CHR 0x9A, CHR 0x0A] @ content msg @ [CHR 0x0A]]
      else [])"

definition format_full_history :: "Message list \<Rightarrow> string" where
  "format_full_history history = join [CHR 0x0A] (concat (map format_line history))"

definition system_prompt :: "world \<Rightarrow> ModeratorConfig \<Rightarrow> string" where
  "system_prompt w c =
     (if moderator_system_prompt c \<noteq> []
      then moderator_system_prompt c @ [CHR 0x0A, CHR 0x0A] @ MODERATOR_SYSTEM_PROMPT w
      else MODERATOR_SYSTEM_PROMPT w)"

text \<open>
  \<^verbatim>\<open>Moderator.final_summary\<close>, called with \<^verbatim>\<open>on_search\<close> and \<^verbatim>\<open>max_retries\<close> at their
  defaults (None and 5). \<^verbatim>\<open>Moderator.opening\<close> and \<^verbatim>\<open>Moderator.after_speech_summary\<close>
  hand on the stream of a call with five retries, \<^verbatim>\<open>Member.speak\<close> that of a call with
  two; the result is the fragments and the exception the stream ends with.
\<close>

definition Moderator_final_summary ::
  "world \<Rightarrow> ModeratorConfig \<Rightarrow> string \<Rightarrow> Message list \<Rightarrow> search_chat_result" where
  "Moderator_final_summary w c topic' full_history =
     chat_with_optional_search w
       [SystemMessage (system_prompt w c),
        UserMessage (get_final_summary_prompt w topic' (format_full_history full_history))] 5"

definition Moderator_opening :: "world \<Rightarrow> string list \<times> exn option" where
  "Moderator_opening w = (let (tr, err) = stream_chat 5 (opening_stream w) in (yielded tr, err))"

definition Moderator_after_speech_summary :: "world \<Rightarrow> nat \<Rightarrow> string list \<times> exn option" where
  "Moderator_after_speech_summary w n =
     (let (tr, err) = stream_chat 5 (summary_stream w n) in (yielded tr, err))"

definition Member_speak :: "world \<Rightarrow> nat \<Rightarrow> string list \<times> exn option" where
  "Member_speak w n = (let (tr, err) = stream_chat 2 (speak_stream w n) in (yielded tr, err))"

section \<open>The session: council/session.py\<close>

record SessionEvent =
  event_type :: string
  ev_speaker_name :: string
  ev_content :: string
  is_streaming :: bool
  is_final :: bool
  speech_index :: nat
  search_query :: string
  search_sources :: "string list"
  hat_emoji :: string
  ev_hat_name :: string

text \<open>\<^verbatim>\<open>SessionEvent(event_type=t)\<close>: every other field at its default.\<close>

definition SessionEvent_init :: "string \<Rightarrow> SessionEvent" where
  "SessionEvent_init t =
     \<lparr>event_type = t, ev_speaker_name = [], ev_content = [], is_streaming = False,
      is_final = False, speech_index = 0, search_query = [], search_sources = [],
      hat_emoji = [], ev_hat_name = []\<rparr>"

text \<open>
  The fields of a \<^verbatim>\<open>Session\<close> object. \<open>session_members\<close> is the dict \<^verbatim>\<open>self.members\<close>,
  an association list in insertion order. \<open>emitted\<close> is not a field of the class: it is
  the sequence of events the generator \<^verbatim>\<open>run\<close> has yielded so far.
\<close>

record Session =
  config :: SessionConfig
  session_members :: "(string \<times> MemberConfig) list"
  state :: SessionState
  history :: "Message list"
  stop_requested :: bool
  summary_requested :: bool
  speech_count :: nat
  latest_summary :: string
  hat_manager :: HatManager
  current_round :: nat
  current_hat_info :: "hat_info option"
  emitted :: "SessionEvent list"

text \<open>
  \<^verbatim>\<open>Session.__init__\<close>: one entry per enabled member, keyed by display name. Assigning
  to a key the dict already has keeps the key's position and replaces its value, which is
  what \<open>AList.update\<close> does.
\<close>

definition Session_init :: "SessionConfig \<Rightarrow> Session" where
  "Session_init cfg =
     \<lparr>config = cfg,
      session_members =
        foldl (\<lambda>d mc. if enabled mc then AList.update (display_name mc) mc d else d) []
          (members cfg),
      state = IDLE, history = [], stop_requested = False, summary_requested = False,
      speech_count = 0, latest_summary = [], hat_manager = HatManager_init,
      current_round = 1, current_hat_info = None, emitted = []\<rparr>"

definition member_names :: "Session \<Rightarrow> string list" where
  "member_names s = map fst (session_members s)"

text \<open>
  One \<^verbatim>\<open>yield\<close> of the generator: the event goes out, and when the generator resumes
  the user's requests made in the meantime have set their flags (\<^verbatim>\<open>request_stop\<close>,
  \<^verbatim>\<open>request_summary\<close>; a flag once set stays set).
\<close>

definition yield :: "world \<Rightarrow> SessionEvent \<Rightarrow> Session \<Rightarrow> Session" where
  "yield w e s =
     (let n = length (emitted s) + 1
      in s\<lparr>emitted := emitted s @ [e],
           stop_requested := (stop_requested s \<or> fst (signals w n)),
           summary_requested := (summary_requested s \<or> snd (signals w n))\<rparr>)"

text \<open>\<^verbatim>\<open>_add_message\<close>; \<^verbatim>\<open>sources\<close> is never passed, so it is the empty list.\<close>

definition add_message ::
  "Role \<Rightarrow> string \<Rightarrow> string \<Rightarrow> MessageType \<Rightarrow> string \<Rightarrow> string \<Rightarrow> string \<Rightarrow> Session \<Rightarrow> Session" where
  "add_message r c sn mt mid hc hn s =
     s\<lparr>history := history s @
          [\<lparr>role = r, content = c, speaker_name = sn, model_id = mid, message_type = mt,
            sources = [], hat_color = hc, hat_name = hn\<rparr>]\<rparr>"

text \<open>
  An event that streams one fragment of the moderator, and the moderator's two other
  events: the empty one that opens a stream and the final one with the whole text.
\<close>

definition moderator_event :: "string \<Rightarrow> string \<Rightarrow> SessionEvent" where
  "moderator_event speaker c =
     (SessionEvent_init ''moderator'')\<lparr>ev_speaker_name := speaker, ev_content := c,
        is_streaming := True\<rparr>"

definition moderator_final_event :: "string \<Rightarrow> string \<Rightarrow> SessionEvent" where
  "moderator_final_event speaker c =
     (SessionEvent_init ''moderator'')\<lparr>ev_speaker_name := speaker, ev_content := c,
        is_streaming := False, is_final := True\<rparr>"

text \<open>
  How a generator that \<^verbatim>\<open>run\<close> consumes ended: it ran to its end, \<^verbatim>\<open>run\<close> returned
  while consuming it, or an exception left it.
\<close>

datatype outcome = Done | Stopped | Failed exn

text \<open>
  \<^verbatim>\<open>_moderator_opening\<close> as \<^verbatim>\<open>run\<close> consumes it. After each event of the opening,
  \<^verbatim>\<open>run\<close> yields it and then returns if the stop flag is set; the opening generator is
  then abandoned where it stands, so what follows its yield does not happen. The OPENING
  entry is appended before the final event is yielded. If the stream raises, the exception
  arrives once its fragments are consumed.
\<close>

fun opening_chunks :: "world \<Rightarrow> string \<Rightarrow> string list \<Rightarrow> Session \<Rightarrow> bool \<times> Session" where
  "opening_chunks w mod_name [] s = (False, s)"
| "opening_chunks w mod_name (c # cs) s =
     (let s' = yield w (moderator_event mod_name c) s
      in if stop_requested s' then (True, s') else opening_chunks w mod_name cs s')"

definition moderator_opening :: "world \<Rightarrow> Session \<Rightarrow> outcome \<times> Session" where
  "moderator_opening w s =
     (let mod_name = moderator_display_name (moderator (config s));
          s1 = yield w (moderator_event mod_name []) s
      in if stop_requested s1 then (Stopped, s1)
         else
           (let (chunks, err) = Moderator_opening w;
                (stopped, s2) = opening_chunks w mod_name chunks s1
            in if stopped then (Stopped, s2)
               else
                 (case err of
                    Some e \<Rightarrow> (Failed e, s2)
                  | None \<Rightarrow>
                      (let full_content = concat chunks;
                           s3 = add_message MODERATOR full_content mod_name OPENING [] [] [] s2;
                           s4 = yield w (moderator_final_event mod_name full_content) s3
                       in if stop_requested s4 then (Stopped, s4) else (Done, s4)))))"

text \<open>
  The events of \<^verbatim>\<open>_member_speak\<close>: the announcement, the fragments, the warning of a
  failed turn and the final event of a successful one.
\<close>

definition start_event :: "string \<Rightarrow> hat_info \<Rightarrow> nat \<Rightarrow> SessionEvent" where
  "start_event member_name hi n =
     (SessionEvent_init ''system'')\<lparr>
        ev_content := member_name @ '' '' @ emoji hi @
          '' '' @ [CHR 0xE9, CHR 0x96, CHR 0x8B, CHR 0xE5, CHR 0xA7, CHR 0x8B, CHR 0xE7, CHR 0x99,
            CHR 0xBC, CHR 0xE8, CHR 0xA8, CHR 0x80, CHR 0xEF, CHR 0xBC, CHR 0x88, CHR 0xE7, CHR 0xAC,
            CHR 0xAC] @ '' '' @ str_nat n @
          '' '' @ [CHR 0xE6, CHR 0xAC, CHR 0xA1, CHR 0xE7, CHR 0x99, CHR 0xBC, CHR 0xE8, CHR 0xA8,
            CHR 0x80, CHR 0xEF, CHR 0xBC, CHR 0x8C] @ name hi @ [CHR 0xEF, CHR 0xBC, CHR 0x89],
        speech_index := n, hat_emoji := emoji hi, ev_hat_name := name hi\<rparr>"

definition member_event :: "string \<Rightarrow> hat_info \<Rightarrow> nat \<Rightarrow> string \<Rightarrow> SessionEvent" where
  "member_event member_name hi n c =
     (SessionEvent_init ''member'')\<lparr>ev_speaker_name := member_name, ev_content := c,
        is_streaming := True, speech_index := n, hat_emoji := emoji hi, ev_hat_name := name hi\<rparr>"

definition warning_event :: "string \<Rightarrow> exn \<Rightarrow> nat \<Rightarrow> SessionEvent" where
  "warning_event member_name e n =
     (SessionEvent_init ''system'')\<lparr>
        ev_content := [CHR 0xE2, CHR 0x9A, CHR 0xA0, CHR 0xEF, CHR 0xB8, CHR 0x8F] @ '' '' @
          member_name @
          '' '' @ [CHR 0xE7, CHR 0x99, CHR 0xBC, CHR 0xE8, CHR 0xA8, CHR 0x80, CHR 0xE5, CHR 0xA4,
            CHR 0xB1, CHR 0xE6, CHR 0x95, CHR 0x97, CHR 0xEF, CHR 0xBC, CHR 0x8C, CHR 0xE5, CHR 0xB7,
            CHR 0xB2, CHR 0xE8, CHR 0xB7, CHR 0xB3, CHR 0xE9, CHR 0x81, CHR 0x8E, CHR 0xEF, CHR 0xBC,
            CHR 0x9A] @ str_exn e,
        speech_index := n\<rparr>"

definition member_final_event :: "string \<Rightarrow> hat_info \<Rightarrow> nat \<Rightarrow> string \<Rightarrow> SessionEvent" where
  "member_final_event member_name hi n c =
     (SessionEvent_init ''member'')\<lparr>ev_speaker_name := member_name, ev_content := c,
        is_streaming := False, is_final := True, speech_index := n, hat_emoji := emoji hi,
        ev_hat_name := name hi\<rparr>"

text \<open>
  \<^verbatim>\<open>_member_speak\<close>. The lookup \<^verbatim>\<open>self.members[member_name]\<close> and the hat assignment
  stand before the \<^verbatim>\<open>try\<close>, so their exceptions leave the generator; an exception of
  \<^verbatim>\<open>member.speak\<close> is caught. \<^verbatim>\<open>_get_previous_speaker_info\<close> reads the history and
  feeds the prompt only; it is left out, as the prompt is.
\<close>

definition member_speak :: "world \<Rightarrow> string \<Rightarrow> Session \<Rightarrow> exn option \<times> Session" where
  "member_speak w member_name s =
     (case map_of (session_members s) member_name of
        None \<Rightarrow> (Some (Exn KeyError member_name), s)
      | Some member \<Rightarrow>
          (let is_first = (speech_count s = 1)
           in case assign_hat (hat_manager s) is_first (hat_draws w (speech_count s)) of
                Inl e \<Rightarrow> (Some e, s)
              | Inr (assigned_hat, hm) \<Rightarrow>
                  (let hi = get_hat_info assigned_hat;
                       n = speech_count s;
                       s1 = s\<lparr>hat_manager := hm, current_hat_info := Some hi\<rparr>;
                       s2 = yield w (start_event member_name hi n) s1;
                       s3 = yield w (member_event member_name hi n []) s2;
                       (chunks, err) = Member_speak w n;
                       s4 = foldl (\<lambda>t c. yield w (member_event member_name hi n c) t) s3 chunks
                   in case err of
                        Some e \<Rightarrow>
                          (None, (yield w (warning_event member_name e n) s4)
                                   \<lparr>current_hat_info := None\<rparr>)
                      | None \<Rightarrow>
                          (let full_content = concat chunks;
                               s5 = add_message MEMBER full_content member_name SPEECH
                                      (member_model_id member) (color hi) (name hi) s4
                           in (None, yield w (member_final_event member_name hi n full_content) s5)))))"

text \<open>
  \<^verbatim>\<open>_after_speech_summary\<close>. It returns at once when the history has no SPEECH entry.
  The hat information and the distribution summary go into the prompt only.
\<close>

definition after_speech_summary :: "world \<Rightarrow> Session \<Rightarrow> exn option \<times> Session" where
  "after_speech_summary w s =
     (case find (\<lambda>m. message_type m = SPEECH) (rev (history s)) of
        None \<Rightarrow> (None, s)
      | Some last_speech \<Rightarrow>
          (let mod_name = moderator_display_name (moderator (config s));
               s1 = yield w (moderator_event mod_name []) s;
               (chunks, err) = Moderator_after_speech_summary w (speech_count s);
               s2 = foldl (\<lambda>t c. yield w (moderator_event mod_name c) t) s1 chunks
           in case err of
                Some e \<Rightarrow> (Some e, s2)
              | None \<Rightarrow>
                  (let full_content = concat chunks;
                       s3 = s2\<lparr>latest_summary := full_content\<rparr>;
                       s4 = add_message MODERATOR full_content mod_name ROUND_SUMMARY [] [] [] s3
                   in (None, yield w (moderator_final_event mod_name full_content) s4))))"

text \<open>\<^verbatim>\<open>_final_summary\<close>\<close>

definition final_summary :: "world \<Rightarrow> Session \<Rightarrow> exn option \<times> Session" where
  "final_summary w s =
     (let s0 = s\<lparr>state := SUMMARIZING\<rparr>;
          mod_name = moderator_display_name (moderator (config s));
          summary_name = mod_name @ [CHR 0xEF, CHR 0xBC, CHR 0x88, CHR 0xE7, CHR 0xB8, CHR 0xBD,
            CHR 0xE7, CHR 0xB5, CHR 0x90, CHR 0xEF, CHR 0xBC, CHR 0x89];
          s1 = yield w ((SessionEvent_init ''system'')\<lparr>ev_content :=
                 [CHR 0xE9, CHR 0x80, CHR 0xB2, CHR 0xE8, CHR 0xA1, CHR 0x8C, CHR 0xE6, CHR 0x9C,
                  CHR 0x80, CHR 0xE7, CHR 0xB5, CHR 0x82, CHR 0xE7, CHR 0xB8, CHR 0xBD, CHR 0xE7,
                  CHR 0xB5, CHR 0x90]\<rparr>) s0;
          s2 = yield w (moderator_event summary_name []) s1;
          r = Moderator_final_summary w (moderator (config s)) (topic (config s)) (history s2);
          s3 = foldl (\<lambda>t c. yield w (moderator_event summary_name c) t) s2 (out_chunks r)
      in case out_raised r of
           Some e \<Rightarrow> (Some e, s3)
         | None \<Rightarrow>
             (let full_content = concat (out_chunks r);
                  s4 = add_message MODERATOR full_content mod_name FINAL_SUMMARY [] [] [] s3
              in (None, yield w (moderator_final_event summary_name full_content) s4)))"

text \<open>
  \<^verbatim>\<open>random.shuffle\<close> is the library's: the Fisher-Yates shuffle, which for
  \<open>i\<close> from the last index down to 1 swaps the elements at \<open>i\<close> and at a random index
  \<open>j \<le> i\<close>. \<open>draw i\<close> is the number drawn at step \<open>i\<close>.
\<close>

definition swap :: "nat \<Rightarrow> nat \<Rightarrow> 'a list \<Rightarrow> 'a list" where
  "swap i j xs = xs[i := xs ! j, j := xs ! i]"

definition random_shuffle :: "(nat \<Rightarrow> nat) \<Rightarrow> 'a list \<Rightarrow> 'a list" where
  "random_shuffle draw xs =
     foldl (\<lambda>ys i. swap i (draw i mod (i + 1)) ys) xs (rev [1..<length xs])"

text \<open>
  The speaking order of \<^verbatim>\<open>run\<close>: for each round a shuffled copy of the member names,
  appended to the order.
\<close>

definition speaking_order :: "world \<Rightarrow> Session \<Rightarrow> string list" where
  "speaking_order w s =
     concat (map (\<lambda>round_num. random_shuffle (shuffle_draws w round_num) (member_names s))
               [0..<nat (total_rounds (config s))])"

text \<open>
  The speaking loop of \<^verbatim>\<open>run\<close>, from index \<open>i\<close> over the rest of the order.
  \<^verbatim>\<open>speech_succeeded\<close> is read off the events of the turn, as the source does. The
  division cannot be by zero: the order is empty when there is no member.
\<close>

fun speaking_loop ::
  "world \<Rightarrow> int \<Rightarrow> nat \<Rightarrow> nat \<Rightarrow> string list \<Rightarrow> Session \<Rightarrow> exn option \<times> Session" where
  "speaking_loop w total_speeches speeches_per_round i [] s = (None, s)"
| "speaking_loop w total_speeches speeches_per_round i (member_name # rest) s =
     (if stop_requested s \<or> summary_requested s then (None, s)
      else
        (let s1 = s\<lparr>current_round := i div speeches_per_round + 1,
                    speech_count := speech_count s + 1\<rparr>
         in case member_speak w member_name s1 of
              (Some e, s2) \<Rightarrow> (Some e, s2)
            | (None, s2) \<Rightarrow>
                (let speech_succeeded =
                       list_ex (\<lambda>event. is_final event \<and> event_type event = ''member'')
                         (drop (length (emitted s1)) (emitted s2))
                 in if stop_requested s2 \<or> summary_requested s2 then (None, s2)
                    else if speech_succeeded \<and> int i < total_speeches - 1 then
                      (case after_speech_summary w s2 of
                         (Some e, s3) \<Rightarrow> (Some e, s3)
                       | (None, s3) \<Rightarrow>
                           speaking_loop w total_speeches speeches_per_round (i + 1) rest s3)
                    else speaking_loop w total_speeches speeches_per_round (i + 1) rest s2)))"

text \<open>
  The body of the \<^verbatim>\<open>try\<close> of \<^verbatim>\<open>run\<close>, and \<^verbatim>\<open>run\<close>: the reset of the per-run fields,
  the body, and the handler, which yields one system event and sets the state to IDLE.
\<close>

definition run_body :: "world \<Rightarrow> Session \<Rightarrow> outcome \<times> Session" where
  "run_body w s0 =
     (let s1 = yield w ((SessionEvent_init ''system'')\<lparr>ev_content :=
                 [CHR 0xE8, CHR 0xA8, CHR 0x8E, CHR 0xE8, CHR 0xAB, CHR 0x96, CHR 0xE9, CHR 0x96,
                  CHR 0x8B, CHR 0xE5, CHR 0xA7, CHR 0x8B]\<rparr>) s0
      in case moderator_opening w s1 of
           (Stopped, s2) \<Rightarrow> (Stopped, s2)
         | (Failed e, s2) \<Rightarrow> (Failed e, s2)
         | (Done, s2) \<Rightarrow>
             (let total_speeches = int (length (member_names s2)) * total_rounds (config s2);
                  speeches_per_round = length (member_names s2);
                  order = speaking_order w s2
              in case speaking_loop w total_speeches speeches_per_round 0 order s2 of
                   (Some e, s3) \<Rightarrow> (Failed e, s3)
                 | (None, s3) \<Rightarrow>
                     (case final_summary w s3 of
                        (Some e, s4) \<Rightarrow> (Failed e, s4)
                      | (None, s4) \<Rightarrow> (Done, s4\<lparr>state := FINISHED\<rparr>))))"

definition run :: "world \<Rightarrow> Session \<Rightarrow> Session" where
  "run w s =
     (let s0 = s\<lparr>state := RUNNING, stop_requested := False, summary_requested := False,
                 speech_count := 0, latest_summary := [],
                 hat_manager := reset (hat_manager s), current_round := 1,
                 current_hat_info := None, emitted := []\<rparr>
      in case run_body w s0 of
           (Failed e, s') \<Rightarrow>
             (yield w ((SessionEvent_init ''system'')\<lparr>ev_content :=
                 [CHR 0xE7, CHR 0x99, CHR 0xBC, CHR 0xE7, CHR 0x94, CHR 0x9F, CHR 0xE9, CHR 0x8C,
                  CHR 0xAF, CHR 0xE8, CHR 0xAA, CHR 0xA4] @ '': '' @ str_exn e\<rparr>) s')
               \<lparr>state := IDLE\<rparr>
         | (_, s') \<Rightarrow> s')"

text \<open>
  The test of the loop of \<^verbatim>\<open>select_next_speaker\<close>: the lower-cased member name occurs
  in the lower-cased reply, or the reply in the name.
\<close>

definition matches :: "(string \<Rightarrow> string) \<Rightarrow> string \<Rightarrow> string \<Rightarrow> bool" where
  "matches lower selected member =
     (py_in (lower member) (lower selected) \<or> py_in (lower selected) (lower member))"

text \<open>
  \<^verbatim>\<open>str.lower\<close> and \<^verbatim>\<open>str.strip\<close> as they act on ASCII text: the letters A to Z are
  mapped to a to z, and the characters that \<^verbatim>\<open>str.isspace\<close> accepts (the space, codes 9 to
  13 and 28 to 31) are removed from both ends.
\<close>

definition ascii_lower :: "string \<Rightarrow> string" where
  "ascii_lower =
     map (\<lambda>c. let n = of_char c :: nat in if 65 \<le> n \<and> n \<le> 90 then char_of (n + 32) else c)"

definition ascii_space :: "char \<Rightarrow> bool" where
  "ascii_space c = (let n = of_char c :: nat in n = 32 \<or> 9 \<le> n \<and> n \<le> 13 \<or> 28 \<le> n \<and> n \<le> 31)"

definition ascii_strip :: "string \<Rightarrow> string" where
  "ascii_strip t = rev (dropWhile ascii_space (rev (dropWhile ascii_space t)))"

text \<open>
  Four providers for \<^verbatim>\<open>select_next_speaker\<close>: a reply that names the second of two
  candidates, in capitals and followed by a newline; a reply that names nobody of the list;
  a response whose \<^verbatim>\<open>choices\<close> is empty; and a provider that raises RateLimitError at
  every attempt.
\<close>

definition example_reply :: "nat \<Rightarrow> exn + raw_response" where
  "example_reply a = Inr [\<lparr>message_content = Some (''I pick BOB.'' @ [CHR 0x0A]),
                           message_tool_calls = None, choice_finish_reason = ''stop''\<rparr>]"

definition unknown_reply :: "nat \<Rightarrow> exn + raw_response" where
  "unknown_reply a = Inr [\<lparr>message_content = Some ''Carol'', message_tool_calls = None,
                           choice_finish_reason = ''stop''\<rparr>]"

definition no_choices_reply :: "nat \<Rightarrow> exn + raw_response" where
  "no_choices_reply a = Inr []"

definition rate_limited_provider :: "nat \<Rightarrow> exn + raw_response" where
  "rate_limited_provider a = Inl (Exn RateLimitError ''429'')"

text \<open>
  For the final summary: whether a reply asks for tools (the \<^verbatim>\<open>if response.get("tool_calls")\<close>
  of the source), its tool calls named \<^verbatim>\<open>web_search\<close>, the query of such a call, the
  tool-result message the source appends for it, and the entry \<^verbatim>\<open>_final_summary\<close> adds
  to the history.
\<close>

definition requests_tools :: "response \<Rightarrow> bool" where
  "requests_tools r = (case tool_calls r of Some (tc # tcs) \<Rightarrow> True | _ \<Rightarrow> False)"

definition web_search_calls :: "response \<Rightarrow> tool_call list" where
  "web_search_calls r =
     (case tool_calls r of
        None \<Rightarrow> []
      | Some tcs \<Rightarrow> filter (\<lambda>tc. tc_name tc = ''web_search'') tcs)"

definition the_query :: "world \<Rightarrow> tool_call \<Rightarrow> string" where
  "the_query w tc = (case json_query w (tc_arguments tc) of Inr q \<Rightarrow> q | Inl e \<Rightarrow> [])"

definition tool_message :: "world \<Rightarrow> tool_call \<Rightarrow> chat_message" where
  "tool_message w tc = ToolMessage (tc_id tc) (format_results_for_ai w (search w (the_query w tc)))"

definition final_summary_entry :: "string \<Rightarrow> string \<Rightarrow> Message" where
  "final_summary_entry mod_name c =
     \<lparr>role = MODERATOR, content = c, speaker_name = mod_name, model_id = [],
      message_type = FINAL_SUMMARY, sources = [], hat_color = [], hat_name = []\<rparr>"

text \<open>
  Whether the arguments of a tool call parse: \<^verbatim>\<open>json.loads(tc["arguments"])\<close> and the
  \<^verbatim>\<open>.get("query", "")\<close> on its result return a query, or one of them raises.
\<close>

definition parse_error :: "world \<Rightarrow> tool_call \<Rightarrow> exn option" where
  "parse_error w tc = (case json_query w (tc_arguments tc) of Inl e \<Rightarrow> Some e | Inr q \<Rightarrow> None)"

definition parses :: "world \<Rightarrow> tool_call \<Rightarrow> bool" where
  "parses w tc = (parse_error w tc = None)"

text \<open>
  The argument strings of the examples, and what \<^verbatim>\<open>json.loads(arguments).get("query", "")\<close>
  does on them: \<^verbatim>\<open>{"query": "tea"}\<close> is an object whose query is \<^verbatim>\<open>tea\<close>; the bare word
  \<^verbatim>\<open>tea\<close> is not JSON, and \<^verbatim>\<open>json.loads\<close> raises JSONDecodeError with the message
  given. The examples pass it no other string. \<open>tea_results\<close> is the text the formatter
  makes of the answer \<^verbatim>\<open>tea\<close> with no result: the heading, the summary line and the
  heading of the sources, with an empty line between them.
\<close>

definition tea_arguments :: string where
  "tea_arguments =
     ''{'' @ [CHR 0x22] @ ''query'' @ [CHR 0x22] @ '': '' @ [CHR 0x22] @ ''tea'' @ [CHR 0x22] @ ''}''"

definition tea_results :: string where
  "tea_results =
     ''### '' @ [CHR 0xE6, CHR 0x90, CHR 0x9C, CHR 0xE5, CHR 0xB0, CHR 0x8B, CHR 0xE7, CHR 0xB5,
                 CHR 0x90, CHR 0xE6, CHR 0x9E, CHR 0x9C, CHR 0x0A, CHR 0x0A] @
     ''**'' @ [CHR 0xE6, CHR 0x91, CHR 0x98, CHR 0xE8, CHR 0xA6, CHR 0x81] @ ''**: tea'' @
     [CHR 0x0A, CHR 0x0A] @
     ''**'' @ [CHR 0xE4, CHR 0xBE, CHR 0x86, CHR 0xE6, CHR 0xBA, CHR 0x90] @ ''**:''"

definition example_json_query :: "string \<Rightarrow> exn + string" where
  "example_json_query arguments =
     (if arguments = tea_arguments then Inr ''tea''
      else Inl (Exn JSONDecodeError ''Expecting value: line 1 column 1 (char 0)''))"

text \<open>
  A run in which nothing fails and nobody presses a button (the search service answers
  every query with the query itself as the summary and no result), its variants for the final
  summary (the reply asks for one tool call, named as given, with the arguments
  \<^verbatim>\<open>{"query": "tea"}\<close>; or for three calls named \<^verbatim>\<open>web_search\<close>, the second with
  the arguments \<^verbatim>\<open>tea\<close>), and a configuration of two members and one round.
\<close>

definition quiet_world :: world where
  "quiet_world =
     \<lparr>signals = (\<lambda>n. (False, False)),
      opening_stream = (\<lambda>a. ([[Some ''Welcome'']], None)),
      speak_stream = (\<lambda>n a. ([[Some ''I think'']], None)),
      summary_stream = (\<lambda>n a. ([[Some ''So far'']], None)),
      final_tools = (\<lambda>a. Inr [\<lparr>message_content = Some ''All said'', message_tool_calls = None,
                                  choice_finish_reason = ''stop''\<rparr>]),
      final_stream = (\<lambda>a. ([[Some ''Searched'']], None)),
      shuffle_draws = (\<lambda>r i. 0),
      hat_draws = (\<lambda>n. 1),
      json_query = example_json_query,
      search = (\<lambda>q. \<lparr>search_error = None, answer = q, results = []\<rparr>),
      format_results_for_ai = SearchService_format_results_for_ai,
      MODERATOR_SYSTEM_PROMPT = ''moderate'',
      get_final_summary_prompt = (\<lambda>t h. t @ h)\<rparr>"

definition tool_reply :: "string \<Rightarrow> nat \<Rightarrow> exn + raw_response" where
  "tool_reply tool a =
     Inr [\<lparr>message_content = None,
           message_tool_calls =
             Some [\<lparr>tc_id = ''call_1'', tc_name = tool, tc_arguments = tea_arguments\<rparr>],
           choice_finish_reason = ''tool_calls''\<rparr>]"

definition search_world :: world where
  "search_world = quiet_world\<lparr>final_tools := tool_reply ''web_search''\<rparr>"

definition other_tool_world :: world where
  "other_tool_world = quiet_world\<lparr>final_tools := tool_reply ''calculator''\<rparr>"

definition unparsed_reply :: "nat \<Rightarrow> exn + raw_response" where
  "unparsed_reply a =
     Inr [\<lparr>message_content = None,
           message_tool_calls =
             Some [\<lparr>tc_id = ''call_1'', tc_name = ''web_search'', tc_arguments = tea_arguments\<rparr>,
                   \<lparr>tc_id = ''call_2'', tc_name = ''web_search'', tc_arguments = ''tea''\<rparr>,
                   \<lparr>tc_id = ''call_3'', tc_name = ''web_search'', tc_arguments = tea_arguments\<rparr>],
           choice_finish_reason = ''tool_calls''\<rparr>]"

definition unparsed_world :: world where
  "unparsed_world = quiet_world\<lparr>final_tools := unparsed_reply\<rparr>"

definition two_members :: SessionConfig where
  "two_members =
     \<lparr>topic = ''tea'', total_rounds = 1, max_tokens = 500,
      moderator = \<lparr>moderator_model_id = ''m0'', moderator_display_name = ''Max'',
                   moderator_system_prompt = []\<rparr>,
      members = [\<lparr>member_model_id = ''m1'', display_name = ''Alice'', member_system_prompt = [],
                  enabled = True\<rparr>,
                 \<lparr>member_model_id = ''m2'', display_name = ''Bob'', member_system_prompt = [],
                  enabled = True\<rparr>]\<rparr>"

text \<open>
  The entry a successful turn adds to the history, and the events of a turn: the
  announcement, the empty event that opens the stream, one event per fragment, and the
  warning (failed turn) or the final event (successful turn).
\<close>

definition speech_entry :: "string \<Rightarrow> MemberConfig \<Rightarrow> hat_info \<Rightarrow> string \<Rightarrow> Message" where
  "speech_entry member_name member hi c =
     \<lparr>role = MEMBER, content = c, speaker_name = member_name, model_id = member_model_id member,
      message_type = SPEECH, sources = [], hat_color = color hi, hat_name = name hi\<rparr>"

definition turn_events ::
  "string \<Rightarrow> hat_info \<Rightarrow> nat \<Rightarrow> string list \<Rightarrow> exn option \<Rightarrow> SessionEvent list" where
  "turn_events member_name hi n chunks err =
     start_event member_name hi n # member_event member_name hi n [] #
     map (member_event member_name hi n) chunks @
     [case err of
        Some e \<Rightarrow> warning_event member_name e n
      | None \<Rightarrow> member_final_event member_name hi n (concat chunks)]"

text \<open>
  A speech whose first attempt breaks off with a rate-limit error after one fragment and
  whose second attempt delivers the whole answer.
\<close>

definition repeat_provider :: "nat \<Rightarrow> stream_attempt" where
  "repeat_provider a =
     (if a = 0 then ([[Some ''Hel'']], Some (Exn RateLimitError ''429''))
      else ([[Some ''Hel''], [Some ''lo'']], None))"

definition repeat_world :: world where
  "repeat_world = quiet_world\<lparr>speak_stream := (\<lambda>n. repeat_provider)\<rparr>"

text \<open>
  The \<open>r\<close>-th block of the speaking order: as many names as there are members, from
  position \<open>r\<close> times that number on.
\<close>

definition round_block :: "world \<Rightarrow> Session \<Rightarrow> nat \<Rightarrow> string list" where
  "round_block w s r =
     take (length (member_names s)) (drop (r * length (member_names s)) (speaking_order w s))"

text \<open>
  Two rounds of two members in which the shuffle of round \<open>r\<close> draws the number \<open>r\<close>.
\<close>

definition boundary_world :: world where
  "boundary_world = quiet_world\<lparr>shuffle_draws := (\<lambda>r i. r)\<rparr>"

definition two_rounds :: Session where
  "two_rounds = Session_init (two_members\<lparr>total_rounds := 2\<rparr>)"

text \<open>
  The first two assignments of an iteration of the speaking loop (the round and the speech
  counter), and the relation between a state of a run and a later one: same configuration
  and members, the events emitted so far are a prefix of those emitted later, and the
  history has grown by SPEECH and ROUND\_SUMMARY entries only.
\<close>

definition turn_start :: "nat \<Rightarrow> nat \<Rightarrow> Session \<Rightarrow> Session" where
  "turn_start i speeches_per_round s =
     s\<lparr>current_round := i div speeches_per_round + 1, speech_count := speech_count s + 1\<rparr>"

definition grows :: "Session \<Rightarrow> Session \<Rightarrow> bool" where
  "grows s s' =
     (config s' = config s \<and> session_members s' = session_members s \<and>
      prefix (emitted s) (emitted s') \<and>
      (\<exists>mid. history s' = history s @ mid \<and>
         (\<forall>m \<in> set mid. message_type m = SPEECH \<or> message_type m = ROUND_SUMMARY)))"

text \<open>
  A run in which the provider fails every attempt of the first turn, and the same run with
  the stop button pressed while that turn is under way (after the sixth event).
\<close>

definition first_turn_fails_world :: world where
  "first_turn_fails_world =
     quiet_world\<lparr>
       speak_stream := (\<lambda>n a. if n = 1 then ([], Some (Exn RateLimitError ''429''))
                               else ([[Some ''I think'']], None)),
       hat_draws := (\<lambda>n. if n = 1 then 1 else 2)\<rparr>"

definition stop_in_turn_world :: world where
  "stop_in_turn_world = first_turn_fails_world\<lparr>signals := (\<lambda>n. (n = 6, False))\<rparr>"

text \<open>
  The calls the moderator makes in a run all end without an exception: the opening, every
  after-speech summary, and the final summary (whatever its context). And the entry
  \<^verbatim>\<open>_moderator_opening\<close> adds to the history.
\<close>

definition moderator_calls_succeed :: "world \<Rightarrow> bool" where
  "moderator_calls_succeed w =
     (snd (Moderator_opening w) = None \<and>
      (\<forall>n. snd (Moderator_after_speech_summary w n) = None) \<and>
      (\<forall>messages. out_raised (chat_with_optional_search w messages 5) = None))"

definition opening_entry :: "string \<Rightarrow> string \<Rightarrow> Message" where
  "opening_entry mod_name c =
     \<lparr>role = MODERATOR, content = c, speaker_name = mod_name, model_id = [],
      message_type = OPENING, sources = [], hat_color = [], hat_name = []\<rparr>"

text \<open>
  Runs in which a button is pressed: stop, or summarize-now, while the opening is streamed
  (after the second event), and stop during the first turn (after the sixth event).
\<close>

definition stop_in_opening_world :: world where
  "stop_in_opening_world = quiet_world\<lparr>signals := (\<lambda>n. (n = 2, False))\<rparr>"

definition summarize_in_opening_world :: world where
  "summarize_in_opening_world = quiet_world\<lparr>signals := (\<lambda>n. (False, n = 2))\<rparr>"

definition stop_in_loop_world :: world where
  "stop_in_loop_world = quiet_world\<lparr>signals := (\<lambda>n. (n = 6, False))\<rparr>"

section \<open>Properties of the role allocator\<close>

lemma random_choice_mem: "seq \<noteq> [] \<Longrightarrow> \<exists>x. random_choice seq r = Inr x \<and> x \<in> set seq"
  by (simp add: random_choice_def)

lemma HatManager_update_all:
  "(m::HatManager)\<lparr>available_hats := a, hat_counts := c\<rparr> = \<lparr>hat_counts = c, available_hats = a\<rparr>"
  by (cases m) simp

text \<open>A call reads the manager only through its counts and its pool.\<close>

lemma assign_hat_pool:
  assumes "hat_counts m1 = hat_counts m2" "pool m1 = pool m2"
  shows "assign_hat m1 f r = assign_hat m2 f r"
proof -
  have alt: "assign_hat m f r =
     (let avail0 = pool m;
          cand0 = filter (\<lambda>h. h \<in> set FIRST_SPEAKER_HATS) avail0;
          avail1 = (if f \<and> cand0 = [] then MEMBER_HATS else avail0);
          candidates =
            (if f
             then (if cand0 = [] then filter (\<lambda>h. h \<in> set FIRST_SPEAKER_HATS) avail1 else cand0)
             else avail1)
      in case random_choice candidates r of
           Inl e \<Rightarrow> Inl e
         | Inr selected \<Rightarrow>
             Inr (selected,
                  \<lparr>hat_counts = (hat_counts m)(selected \<mapsto> get_count (hat_counts m) selected + 1),
                   available_hats = remove1 selected avail1\<rparr>))" for m
    unfolding assign_hat_def pool_def HatManager_update_all ..
  show ?thesis by (simp only: alt assms)
qed

lemma assign_hat_no_refill:
  assumes "no_refill (available_hats m) f"
  shows "\<exists>h m'. assign_hat m f r = Inr (h, m') \<and> h \<in> set (available_hats m) \<and>
           available_hats m' = remove1 h (available_hats m) \<and> (f \<longrightarrow> h \<in> set FIRST_SPEAKER_HATS)"
proof (cases f)
  case False
  with assms have ne: "available_hats m \<noteq> []" by (simp add: no_refill_def)
  from random_choice_mem [OF ne, of r] obtain x where
    "random_choice (available_hats m) r = Inr x" "x \<in> set (available_hats m)" by blast
  with False ne show ?thesis by (simp add: assign_hat_def Let_def)
next
  case True
  let ?c = "filter (\<lambda>h. h \<in> set FIRST_SPEAKER_HATS) (available_hats m)"
  from assms True have ne: "available_hats m \<noteq> []" and c: "?c \<noteq> []"
    by (auto simp: no_refill_def filter_empty_conv)
  from random_choice_mem [OF c, of r] obtain x where
    "random_choice ?c r = Inr x" "x \<in> set ?c" by blast
  with True ne c show ?thesis by (simp add: assign_hat_def Let_def)
qed

text \<open>
  Calls without the first-speaker flag, no more of them than the pool holds hats: the
  hats returned and the hats left make up the pool the run started from.
\<close>

lemma assign_hats_plain:
  "distinct (available_hats m) \<Longrightarrow> length calls \<le> length (available_hats m) \<Longrightarrow>
   \<forall>c \<in> set calls. \<not> fst c \<Longrightarrow>
   \<exists>hs m'. assign_hats m calls = Inr (hs, m') \<and>
     mset hs + mset (available_hats m') = mset (available_hats m)"
proof (induction calls arbitrary: m)
  case Nil
  then show ?case by simp
next
  case (Cons c calls)
  obtain f r where c: "c = (f, r)" by (cases c)
  with Cons.prems have f: "\<not> f" and ne: "available_hats m \<noteq> []" by auto
  then have "no_refill (available_hats m) f" by (simp add: no_refill_def)
  from assign_hat_no_refill [OF this, of r] obtain h m' where
    s: "assign_hat m f r = Inr (h, m')" "h \<in> set (available_hats m)"
       "available_hats m' = remove1 h (available_hats m)" by blast
  with Cons.prems have "distinct (available_hats m')" "length calls \<le> length (available_hats m')"
    "\<forall>c \<in> set calls. \<not> fst c" by (auto simp: length_remove1)
  from Cons.IH [OF this] obtain hs m'' where
    r: "assign_hats m' calls = Inr (hs, m'')"
       "mset hs + mset (available_hats m'') = mset (available_hats m')"
    by blast
  from s r show ?case by (simp add: c)
qed

lemma first_two_ok:
  "h \<in> set MEMBER_HATS \<Longrightarrow> no_refill (remove1 h MEMBER_HATS) f"
  by (cases h) (simp_all add: no_refill_def MEMBER_HATS_def FIRST_SPEAKER_HATS_def)

lemma mset_remove1_mem: "h \<in> set xs \<Longrightarrow> add_mset h (mset (remove1 h xs)) = mset xs"
  by simp

lemma full_pool_five:
  assumes av: "available_hats m = MEMBER_HATS"
  shows "\<exists>hs m'. assign_hats m [(f1, r1), (f2, r2), (False, r3), (False, r4), (False, r5)] = Inr (hs, m') \<and>
           mset hs = mset MEMBER_HATS"
proof -
  have "no_refill (available_hats m) f1"
    by (simp add: av no_refill_def MEMBER_HATS_def FIRST_SPEAKER_HATS_def)
  from assign_hat_no_refill [OF this, of r1] obtain h1 m1 where
    s1: "assign_hat m f1 r1 = Inr (h1, m1)" "h1 \<in> set MEMBER_HATS"
       "available_hats m1 = remove1 h1 MEMBER_HATS" by (auto simp: av)
  have "no_refill (available_hats m1) f2" using s1 by (simp add: first_two_ok)
  from assign_hat_no_refill [OF this, of r2] obtain h2 m2 where
    s2: "assign_hat m1 f2 r2 = Inr (h2, m2)" "h2 \<in> set (remove1 h1 MEMBER_HATS)"
       "available_hats m2 = remove1 h2 (remove1 h1 MEMBER_HATS)" by (auto simp: s1)
  have d: "distinct MEMBER_HATS" and l: "length MEMBER_HATS = 5" by (simp_all add: MEMBER_HATS_def)
  have l2: "length (available_hats m2) = 3"
    using s1(2) s2(2) l by (simp add: s2(3) length_remove1)
  have "distinct (available_hats m2)" using d by (simp add: s2(3))
  moreover have "length [(False, r3), (False, r4), (False, r5)] \<le> length (available_hats m2)"
    by (simp add: l2)
  moreover have "\<forall>c \<in> set [(False, r3), (False, r4), (False, r5)]. \<not> fst c" by simp
  ultimately obtain hs m' where
    r: "assign_hats m2 [(False, r3), (False, r4), (False, r5)] = Inr (hs, m')"
       "mset hs + mset (available_hats m') = mset (available_hats m2)"
    using assign_hats_plain by blast
  from r(1) have "length hs = 3"
    by (auto split: sum.splits prod.splits)
  with l2 r(2) have "available_hats m' = []"
    by (metis add_diff_cancel_left' length_0_conv size_mset size_union diff_self_eq_0)
  with r(2) have "mset hs = mset (available_hats m2)" by simp
  then have "mset (h1 # h2 # hs) = mset MEMBER_HATS"
    using mset_remove1_mem [OF s1(2)] mset_remove1_mem [OF s2(2)] by (simp add: s2(3))
  moreover have "assign_hats m [(f1, r1), (f2, r2), (False, r3), (False, r4), (False, r5)] =
      Inr (h1 # h2 # hs, m')"
    using s1(1) s2(1) r(1) by simp
  ultimately show ?thesis by blast
qed

text \<open>
  A call never raises: the candidates are never empty. With the first-speaker flag the hat
  is WHITE or GREEN, whatever the pool held.
\<close>

lemma assign_hat_total:
  "\<exists>h m'. assign_hat m f r = Inr (h, m') \<and> (f \<longrightarrow> h \<in> set FIRST_SPEAKER_HATS)"
proof -
  let ?m = "m\<lparr>available_hats := pool m\<rparr>"
  have e: "assign_hat m f r = assign_hat ?m f r"
    by (rule assign_hat_pool) (simp_all add: pool_def)
  have ne: "pool m \<noteq> []" by (simp add: pool_def MEMBER_HATS_def)
  show ?thesis
  proof (cases "no_refill (pool m) f")
    case True
    then have "no_refill (available_hats ?m) f" by simp
    from assign_hat_no_refill [OF this, of r] show ?thesis unfolding e by blast
  next
    case False
    with ne have f: "f" and none: "filter (\<lambda>h. h \<in> set FIRST_SPEAKER_HATS) (pool m) = []"
      by (auto simp: no_refill_def filter_empty_conv)
    have "assign_hat ?m f r =
        (case random_choice [WHITE, GREEN] r of
           Inl e \<Rightarrow> Inl e
         | Inr selected \<Rightarrow>
             Inr (selected,
                  ?m\<lparr>available_hats := remove1 selected MEMBER_HATS,
                     hat_counts := (hat_counts ?m)(selected \<mapsto> get_count (hat_counts ?m) selected + 1)\<rparr>))"
      using f none ne
      by (simp add: assign_hat_def Let_def) (simp add: MEMBER_HATS_def FIRST_SPEAKER_HATS_def)
    moreover obtain x where "random_choice [WHITE, GREEN] r = Inr x" "x \<in> set [WHITE, GREEN]"
      using random_choice_mem [of "[WHITE, GREEN]" r] by auto
    ultimately show ?thesis unfolding e by (auto simp: FIRST_SPEAKER_HATS_def)
  qed
qed


subsection \<open>C3: five calls from a fresh pool\<close>

text \<open>
  C3, as stated, fails. Three calls with the first-speaker flag, from the pool that
  \<^verbatim>\<open>reset()\<close> leaves, with every random draw 0: the first two take WHITE and GREEN, the
  third finds neither in the pool, refills it and takes WHITE again. Within the five calls
  WHITE is returned twice and YELLOW never.
\<close>

theorem assign_hat_five_calls_counterexample:
  "map_sum id fst (assign_hats (reset HatManager_init)
      [(True, 0), (True, 0), (True, 0), (False, 0), (False, 0)]) =
   Inr [WHITE, GREEN, WHITE, RED, BLACK]"
  by (simp add: assign_hat_def reset_def HatManager_init_def MEMBER_HATS_def FIRST_SPEAKER_HATS_def
      random_choice_def Let_def get_count_def)

text \<open>
  C3, amended: from a fresh pool (empty as constructed, or full as \<^verbatim>\<open>reset()\<close> leaves it),
  five consecutive calls of \<^verbatim>\<open>assign_hat\<close> in which only the first two may carry the
  first-speaker flag return each of the five roles exactly once, whatever the random
  draws and whatever the flags of the first two calls.
\<close>

theorem assign_hat_five_calls_each_role_once:
  assumes "fresh_pool m"
  shows "\<exists>hs m'. assign_hats m [(f1, r1), (f2, r2), (False, r3), (False, r4), (False, r5)] = Inr (hs, m') \<and>
           (\<forall>h. count_list hs h = 1)"
proof -
  let ?calls = "[(f1, r1), (f2, r2), (False, r3), (False, r4), (False, r5)]"
  let ?m = "m\<lparr>available_hats := MEMBER_HATS\<rparr>"
  have "pool m = pool ?m" using assms by (auto simp: fresh_pool_def pool_def)
  then have "assign_hat m f1 r1 = assign_hat ?m f1 r1"
    by (intro assign_hat_pool) simp_all
  then have e: "assign_hats m ?calls = assign_hats ?m ?calls" by simp
  have "available_hats ?m = MEMBER_HATS" by simp
  from full_pool_five [OF this, of f1 r1 f2 r2 r3 r4 r5] obtain hs m' where
    r: "assign_hats ?m ?calls = Inr (hs, m')" "mset hs = mset MEMBER_HATS" by auto
  have "count_list hs h = 1" for h
  proof -
    have "count (mset hs) h = count (mset MEMBER_HATS) h" using r(2) by simp
    then show ?thesis by (cases h) (simp_all add: MEMBER_HATS_def count_mset)
  qed
  with r(1) e show ?thesis by simp
qed

theorem assign_hat_five_calls_each_role_once_witness:
  "fresh_pool HatManager_init \<and>
   (\<exists>hs m'. assign_hats HatManager_init [(True, 7), (True, 3), (False, 1), (False, 4), (False, 0)] =
        Inr (hs, m') \<and> (\<forall>h. count_list hs h = 1))"
  using assign_hat_five_calls_each_role_once [of HatManager_init True 7 True 3 1 4 0]
  by (simp add: fresh_pool_def HatManager_init_def)

subsection \<open>C9: reset() against a fresh allocator\<close>

lemma hat_run_pool:
  "hat_counts m1 = hat_counts m2 \<Longrightarrow> pool m1 = pool m2 \<Longrightarrow> hat_run m1 ops = hat_run m2 ops"
proof (induction ops arbitrary: m1 m2)
  case Nil
  then show ?case by simp
next
  case (Cons op ops)
  have same: "hat_run m1 ops = hat_run m2 ops"
    using Cons.prems by (rule Cons.IH)
  show ?case
  proof (cases op)
    case (AssignHat f r)
    have "assign_hat m1 f r = assign_hat m2 f r"
      using Cons.prems by (rule assign_hat_pool)
    with AssignHat show ?thesis by simp
  next
    case GetUnusedHats
    with same Cons.prems(1) show ?thesis by (simp add: get_unused_hats_def)
  next
    case GetDistributionSummary
    with same Cons.prems(1) show ?thesis by (simp add: get_distribution_summary_def)
  next
    case Reset
    have "reset m1 = reset m2" by (cases m1; cases m2) (simp add: reset_def)
    with Reset show ?thesis by simp
  qed
qed

text \<open>
  C9: \<^verbatim>\<open>reset()\<close> leaves the pool full where \<^verbatim>\<open>HatManager()\<close> leaves it empty, so the two
  states differ as values; no sequence of operations tells them apart. For every manager
  \<open>m\<close>, every sequence of calls of \<^verbatim>\<open>assign_hat\<close> (any flags), \<^verbatim>\<open>get_unused_hats\<close>,
  \<^verbatim>\<open>get_distribution_summary\<close> and \<^verbatim>\<open>reset\<close>, and every sequence of random draws, the
  results observed after \<^verbatim>\<open>reset()\<close> equal those of a fresh allocator. Equal results for
  equal draws give equal distributions.
\<close>

theorem reset_indistinguishable_from_fresh:
  "hat_run (reset m) ops = hat_run HatManager_init ops"
  by (rule hat_run_pool) (simp_all add: reset_def HatManager_init_def pool_def)

section \<open>Properties of the retrying client\<close>

lemma chat_with_retry_loop_from:
  assumes "a \<le> k" "int k \<le> max_retries"
    and "\<forall>i. a \<le> i \<and> i < k \<longrightarrow> retryable_failure (provider i)"
    and "int k = max_retries \<or> \<not> retryable_failure (provider k)"
  shows "chat_with_retry_loop max_retries provider [a..<nat (max_retries + 1)] le =
     (concat (map (\<lambda>i. [Create, Sleep (BASE_RETRY_DELAY * 2 ^ i)]) [a..<k]) @
        Create # (case provider k of Inr r \<Rightarrow> [Sleep REQUEST_DELAY] | Inl e \<Rightarrow> []),
      case provider k of Inr r \<Rightarrow> parse_response r | Inl e \<Rightarrow> Inl e)"
  using assms
proof (induction "k - a" arbitrary: a le)
  case 0
  then have ak: "a = k" by simp
  have upt: "[k..<nat (max_retries + 1)] = k # [Suc k..<nat (max_retries + 1)]"
    using "0.prems"(2) by (intro upt_conv_Cons) linarith
  show ?case
  proof (cases "provider k")
    case (Inr r)
    then show ?thesis by (simp add: ak upt)
  next
    case (Inl e)
    then show ?thesis using "0.prems"(4) "0.prems"(2)
      by (auto simp: ak upt retryable_failure_def)
  qed
next
  case (Suc d)
  then have lt: "a < k" by simp
  have upt: "[a..<nat (max_retries + 1)] = a # [Suc a..<nat (max_retries + 1)]"
    using Suc.prems(2) lt by (intro upt_conv_Cons) linarith
  have upk: "[a..<k] = a # [Suc a..<k]" using lt by (rule upt_conv_Cons)
  from Suc.prems(3) lt have "retryable_failure (provider a)" by simp
  then obtain e where e: "provider a = Inl e" "retryable e"
    by (cases "provider a") (simp_all add: retryable_failure_def)
  have am: "int a < max_retries" using lt Suc.prems(2) by linarith
  have IH: "chat_with_retry_loop max_retries provider [Suc a..<nat (max_retries + 1)] (Some e) =
     (concat (map (\<lambda>i. [Create, Sleep (BASE_RETRY_DELAY * 2 ^ i)]) [Suc a..<k]) @
        Create # (case provider k of Inr r \<Rightarrow> [Sleep REQUEST_DELAY] | Inl e \<Rightarrow> []),
      case provider k of Inr r \<Rightarrow> parse_response r | Inl e \<Rightarrow> Inl e)"
  proof (rule Suc.hyps(1))
    show "d = k - Suc a" using Suc.hyps(2) by simp
    show "Suc a \<le> k" using lt by simp
    show "int k \<le> max_retries" by (rule Suc.prems(2))
    show "\<forall>i. Suc a \<le> i \<and> i < k \<longrightarrow> retryable_failure (provider i)" using Suc.prems(3) by simp
    show "int k = max_retries \<or> \<not> retryable_failure (provider k)" by (rule Suc.prems(4))
  qed
  show ?case by (simp add: upt upk e am IH Let_def)
qed

lemma exists_final_attempt:
  "\<exists>k\<le>(n::nat). (\<forall>a<k. P a) \<and> (k = n \<or> \<not> P k)"
proof (induction n)
  case 0
  then show ?case by simp
next
  case (Suc n)
  then obtain k where k: "k \<le> n" "\<forall>a<k. P a" "k = n \<or> \<not> P k" by blast
  show ?case
  proof (cases "k = n \<and> P n")
    case True
    with k(2) have "\<forall>a<Suc n. P a" by (simp add: less_Suc_eq)
    then show ?thesis by blast
  next
    case False
    with k have "k \<le> Suc n \<and> (\<forall>a<k. P a) \<and> (k = Suc n \<or> \<not> P k)" by auto
    then show ?thesis by blast
  qed
qed

lemma stream_chat_loop_from:
  assumes "a \<le> k" "int k \<le> max_retries"
    and "\<forall>i. a \<le> i \<and> i < k \<longrightarrow> stream_retryable_failure (provider i)"
    and "int k = max_retries \<or> \<not> stream_retryable_failure (provider k)"
  shows "stream_chat_loop max_retries provider [a..<nat (max_retries + 1)] le =
     (concat (map (\<lambda>i. Create # map Yield (concat (map chunk_text (fst (provider i)))) @
                      [Sleep (BASE_RETRY_DELAY * 2 ^ i)]) [a..<k]) @
        Create # map Yield (concat (map chunk_text (fst (provider k)))) @
        (case snd (provider k) of None \<Rightarrow> [Sleep REQUEST_DELAY] | Some e \<Rightarrow> []),
      snd (provider k))"
  using assms
proof (induction "k - a" arbitrary: a le)
  case 0
  then have ak: "a = k" by simp
  have upt: "[k..<nat (max_retries + 1)] = k # [Suc k..<nat (max_retries + 1)]"
    using "0.prems"(2) by (intro upt_conv_Cons) linarith
  obtain cs err where p: "provider k = (cs, err)" by (cases "provider k")
  show ?case
  proof (cases err)
    case None
    then show ?thesis by (simp add: ak upt p)
  next
    case (Some e)
    then show ?thesis using "0.prems"(4) "0.prems"(2)
      by (auto simp: ak upt p stream_retryable_failure_def Let_def)
  qed
next
  case (Suc d)
  then have lt: "a < k" by simp
  have upt: "[a..<nat (max_retries + 1)] = a # [Suc a..<nat (max_retries + 1)]"
    using Suc.prems(2) lt by (intro upt_conv_Cons) linarith
  have upk: "[a..<k] = a # [Suc a..<k]" using lt by (rule upt_conv_Cons)
  from Suc.prems(3) lt have "stream_retryable_failure (provider a)" by simp
  then obtain cs e where e: "provider a = (cs, Some e)" "retryable e"
    by (cases "provider a"; cases "snd (provider a)") (simp_all add: stream_retryable_failure_def)
  have am: "int a < max_retries" using lt Suc.prems(2) by linarith
  have IH: "stream_chat_loop max_retries provider [Suc a..<nat (max_retries + 1)] (Some e) =
     (concat (map (\<lambda>i. Create # map Yield (concat (map chunk_text (fst (provider i)))) @
                      [Sleep (BASE_RETRY_DELAY * 2 ^ i)]) [Suc a..<k]) @
        Create # map Yield (concat (map chunk_text (fst (provider k)))) @
        (case snd (provider k) of None \<Rightarrow> [Sleep REQUEST_DELAY] | Some e \<Rightarrow> []),
      snd (provider k))"
  proof (rule Suc.hyps(1))
    show "d = k - Suc a" using Suc.hyps(2) by simp
    show "Suc a \<le> k" using lt by simp
    show "int k \<le> max_retries" by (rule Suc.prems(2))
    show "\<forall>i. Suc a \<le> i \<and> i < k \<longrightarrow> stream_retryable_failure (provider i)" using Suc.prems(3) by simp
    show "int k = max_retries \<or> \<not> stream_retryable_failure (provider k)" by (rule Suc.prems(4))
  qed
  show ?case by (simp add: upt upk e am IH Let_def)
qed

subsection \<open>C5: the retry policy\<close>

text \<open>
  C5. Every call with \<open>max_retries \<ge> 0\<close>, non-streaming or streaming, ends at some attempt
  \<open>k \<le> max_retries\<close>: every attempt before \<open>k\<close> failed with a rate-limit or
  provider-status error and was followed by a sleep of \<open>BASE_RETRY_DELAY * 2 ^ attempt\<close> and a
  new request; attempt \<open>k\<close> is either the last one allowed (\<open>k = max_retries\<close>) or not such a
  failure. If attempt \<open>k\<close> raises, retryable or not, the call raises that exception right after
  the request, with no sleep and no further request: another exception is never retried, and
  exhausted retries raise the last error. If attempt \<open>k\<close> succeeds, the call sleeps
  \<open>REQUEST_DELAY\<close> once, as its last action. A streaming call also hands over the fragments
  of every attempt, failed or not, in order.
\<close>

theorem client_retry_policy:
  assumes "0 \<le> max_retries"
  shows "(\<exists>k. int k \<le> max_retries \<and> (\<forall>a<k. retryable_failure (provider a)) \<and>
            (int k = max_retries \<or> \<not> retryable_failure (provider k)) \<and>
            chat_with_retry max_retries provider =
              (backoff k @ Create # (case provider k of Inr r \<Rightarrow> [Sleep REQUEST_DELAY] | Inl e \<Rightarrow> []),
               case provider k of Inr r \<Rightarrow> parse_response r | Inl e \<Rightarrow> Inl e)) \<and>
         (\<exists>j. int j \<le> max_retries \<and> (\<forall>a<j. stream_retryable_failure (sprovider a)) \<and>
            (int j = max_retries \<or> \<not> stream_retryable_failure (sprovider j)) \<and>
            stream_chat max_retries sprovider =
              (stream_backoff sprovider j @ Create # map Yield (concat (map chunk_text (fst (sprovider j)))) @
                 (case snd (sprovider j) of None \<Rightarrow> [Sleep REQUEST_DELAY] | Some e \<Rightarrow> []),
               snd (sprovider j)))"
proof
  from exists_final_attempt [of "nat max_retries" "\<lambda>a. retryable_failure (provider a)"]
  obtain k where k: "k \<le> nat max_retries" "\<forall>a<k. retryable_failure (provider a)"
    "k = nat max_retries \<or> \<not> retryable_failure (provider k)" by blast
  from k(1) assms have le: "int k \<le> max_retries" by linarith
  from k(3) assms have fin: "int k = max_retries \<or> \<not> retryable_failure (provider k)" by auto
  have "chat_with_retry max_retries provider =
      (backoff k @ Create # (case provider k of Inr r \<Rightarrow> [Sleep REQUEST_DELAY] | Inl e \<Rightarrow> []),
       case provider k of Inr r \<Rightarrow> parse_response r | Inl e \<Rightarrow> Inl e)"
    unfolding chat_with_retry_def backoff_def
    using le k(2) fin by (intro chat_with_retry_loop_from) auto
  with le k(2) fin show "\<exists>k. int k \<le> max_retries \<and> (\<forall>a<k. retryable_failure (provider a)) \<and>
            (int k = max_retries \<or> \<not> retryable_failure (provider k)) \<and>
            chat_with_retry max_retries provider =
              (backoff k @ Create # (case provider k of Inr r \<Rightarrow> [Sleep REQUEST_DELAY] | Inl e \<Rightarrow> []),
               case provider k of Inr r \<Rightarrow> parse_response r | Inl e \<Rightarrow> Inl e)" by blast
next
  from exists_final_attempt [of "nat max_retries" "\<lambda>a. stream_retryable_failure (sprovider a)"]
  obtain j where j: "j \<le> nat max_retries" "\<forall>a<j. stream_retryable_failure (sprovider a)"
    "j = nat max_retries \<or> \<not> stream_retryable_failure (sprovider j)" by blast
  from j(1) assms have le: "int j \<le> max_retries" by linarith
  from j(3) assms have fin: "int j = max_retries \<or> \<not> stream_retryable_failure (sprovider j)" by auto
  have "stream_chat max_retries sprovider =
              (stream_backoff sprovider j @ Create # map Yield (concat (map chunk_text (fst (sprovider j)))) @
                 (case snd (sprovider j) of None \<Rightarrow> [Sleep REQUEST_DELAY] | Some e \<Rightarrow> []),
               snd (sprovider j))"
    unfolding stream_chat_def stream_backoff_def
    using le j(2) fin by (intro stream_chat_loop_from) auto
  with le j(2) fin show "\<exists>j. int j \<le> max_retries \<and> (\<forall>a<j. stream_retryable_failure (sprovider a)) \<and>
            (int j = max_retries \<or> \<not> stream_retryable_failure (sprovider j)) \<and>
            stream_chat max_retries sprovider =
              (stream_backoff sprovider j @ Create # map Yield (concat (map chunk_text (fst (sprovider j)))) @
                 (case snd (sprovider j) of None \<Rightarrow> [Sleep REQUEST_DELAY] | Some e \<Rightarrow> []),
               snd (sprovider j))" by blast
qed


theorem client_retry_policy_witness:
  "(0::int) \<le> 2 \<and>
   (\<exists>k. int k \<le> 2 \<and> (\<forall>a<k. retryable_failure (example_provider a)) \<and>
      (int k = 2 \<or> \<not> retryable_failure (example_provider k)) \<and>
      chat_with_retry 2 example_provider =
        (backoff k @ Create # (case example_provider k of Inr r \<Rightarrow> [Sleep REQUEST_DELAY] | Inl e \<Rightarrow> []),
         case example_provider k of Inr r \<Rightarrow> parse_response r | Inl e \<Rightarrow> Inl e)) \<and>
   (\<exists>j. int j \<le> 2 \<and> (\<forall>a<j. stream_retryable_failure (example_stream_provider a)) \<and>
      (int j = 2 \<or> \<not> stream_retryable_failure (example_stream_provider j)) \<and>
      stream_chat 2 example_stream_provider =
        (stream_backoff example_stream_provider j @
           Create # map Yield (concat (map chunk_text (fst (example_stream_provider j)))) @
           (case snd (example_stream_provider j) of None \<Rightarrow> [Sleep REQUEST_DELAY] | Some e \<Rightarrow> []),
         snd (example_stream_provider j)))"
  using client_retry_policy [of 2 example_provider example_stream_provider] by simp

section \<open>Properties of the moderator\<close>

subsection \<open>C7: the next speaker is a remaining member\<close>

lemma py_in_iff: "py_in x y \<longleftrightarrow> (\<exists>p s. y = p @ x @ s)"
proof (induction y)
  case Nil
  then show ?case by auto
next
  case (Cons c cs)
  show ?case
  proof
    assume "py_in x (c # cs)"
    then consider "prefix x (c # cs)" | "py_in x cs" by auto
    then show "\<exists>p s. c # cs = p @ x @ s"
    proof cases
      case 1
      then obtain s where "c # cs = x @ s" by (auto simp: prefix_def)
      then have "c # cs = [] @ x @ s" by simp
      then show ?thesis by blast
    next
      case 2
      with Cons.IH obtain p s where "cs = p @ x @ s" by blast
      then have "c # cs = (c # p) @ x @ s" by simp
      then show ?thesis by blast
    qed
  next
    assume "\<exists>p s. c # cs = p @ x @ s"
    then obtain p s where ps: "c # cs = p @ x @ s" by blast
    show "py_in x (c # cs)"
    proof (cases p)
      case Nil
      with ps have "prefix x (c # cs)" by (simp add: prefix_def)
      then show ?thesis by simp
    next
      case (Cons a p')
      with ps have "cs = p' @ x @ s" by simp
      with Cons.IH have "py_in x cs" by blast
      then show ?thesis by simp
    qed
  qed
qed

lemma find_first_match:
  "find P xs = Some x \<Longrightarrow> \<exists>ys zs. xs = ys @ x # zs \<and> P x \<and> (\<forall>y \<in> set ys. \<not> P y)"
proof (induction xs)
  case Nil
  then show ?case by simp
next
  case (Cons a xs)
  show ?case
  proof (cases "P a")
    case True
    with Cons.prems have "a = x" by simp
    with True have "a # xs = [] @ x # xs \<and> P x \<and> (\<forall>y \<in> set []. \<not> P y)" by simp
    then show ?thesis by blast
  next
    case False
    with Cons.prems have "find P xs = Some x" by simp
    from Cons.IH [OF this] obtain ys zs where "xs = ys @ x # zs" "P x" "\<forall>y \<in> set ys. \<not> P y" by blast
    with False have "a # xs = (a # ys) @ x # zs \<and> P x \<and> (\<forall>y \<in> set (a # ys). \<not> P y)" by simp
    then show ?thesis by blast
  qed
qed

text \<open>
  C7, as stated, fails: \<^verbatim>\<open>select_next_speaker\<close> awaits the client call outside any
  \<^verbatim>\<open>try\<close>, so an exception of the call propagates and no member is returned, although
  the list of remaining members is not empty. A response whose \<^verbatim>\<open>choices\<close> is empty
  makes \<^verbatim>\<open>_parse_response\<close> raise IndexError, and a provider that keeps answering with
  RateLimitError makes the call raise it after the last retry.
\<close>

theorem select_next_speaker_raises_counterexample:
  "select_next_speaker ascii_lower ascii_strip no_choices_reply [''Alice'', ''Bob''] =
     Inl (Exn IndexError ''list index out of range'') \<and>
   select_next_speaker ascii_lower ascii_strip rate_limited_provider [''Alice'', ''Bob''] =
     Inl (Exn RateLimitError ''429'')"
  by code_simp

text \<open>
  C7, amended. For a non-empty \<^verbatim>\<open>remaining_members\<close>: when the client call returns a
  reply, \<^verbatim>\<open>select_next_speaker\<close> returns an element \<open>m\<close> of \<^verbatim>\<open>remaining_members\<close>,
  namely the first candidate whose lower-cased name occurs in the lower-cased, stripped
  reply (or the reply in the name), and the first candidate of the list when no candidate
  matches; when the client call raises, \<^verbatim>\<open>select_next_speaker\<close> raises the same exception.
  This holds for every \<open>lower\<close> and \<open>strip\<close>.
\<close>

theorem select_next_speaker_in_remaining:
  assumes "remaining_members \<noteq> []"
  shows "case snd (chat_with_retry DEFAULT_MAX_RETRIES provider) of
           Inl e \<Rightarrow> select_next_speaker lower strip provider remaining_members = Inl e
         | Inr response \<Rightarrow>
             (\<exists>m. select_next_speaker lower strip provider remaining_members = Inr m \<and>
                  m \<in> set remaining_members \<and>
                  (let selected = strip (resp_content response)
                   in if \<exists>c \<in> set remaining_members. matches lower selected c
                      then \<exists>before after. remaining_members = before @ m # after \<and>
                             matches lower selected m \<and>
                             (\<forall>c \<in> set before. \<not> matches lower selected c)
                      else m = hd remaining_members))"
proof (cases "snd (chat_with_retry DEFAULT_MAX_RETRIES provider)")
  case (Inl e)
  then show ?thesis by (simp add: select_next_speaker_def)
next
  case (Inr response)
  let ?sel = "strip (resp_content response)"
  let ?P = "\<lambda>member. py_in (lower member) (lower ?sel) \<or> py_in (lower ?sel) (lower member)"
  have P: "?P = matches lower ?sel" by (simp add: matches_def fun_eq_iff)
  have sel: "select_next_speaker lower strip provider remaining_members =
      (case find (matches lower ?sel) remaining_members of
         Some member \<Rightarrow> Inr member
       | None \<Rightarrow> Inr (case remaining_members of [] \<Rightarrow> [] | m # _ \<Rightarrow> m))"
    unfolding select_next_speaker_def Inr P [symmetric] by (simp add: Let_def)
  have "\<exists>m. select_next_speaker lower strip provider remaining_members = Inr m \<and>
            m \<in> set remaining_members \<and>
            (if \<exists>c \<in> set remaining_members. matches lower ?sel c
             then \<exists>before after. remaining_members = before @ m # after \<and>
                    matches lower ?sel m \<and> (\<forall>c \<in> set before. \<not> matches lower ?sel c)
             else m = hd remaining_members)"
  proof (cases "find (matches lower ?sel) remaining_members")
    case None
    then have no: "\<not> (\<exists>c \<in> set remaining_members. matches lower ?sel c)"
      by (simp add: find_None_iff)
    from assms obtain m ms where ms: "remaining_members = m # ms" by (cases remaining_members) auto
    have res: "select_next_speaker lower strip provider remaining_members = Inr m"
      unfolding sel None by (simp add: ms)
    have "m \<in> set remaining_members" by (simp add: ms)
    moreover have "m = hd remaining_members" by (simp add: ms)
    ultimately show ?thesis using res no by (intro exI [of _ m]) simp
  next
    case (Some m)
    from find_first_match [OF Some] obtain before after where
      f: "remaining_members = before @ m # after" "matches lower ?sel m"
         "\<forall>c \<in> set before. \<not> matches lower ?sel c" by blast
    have res: "select_next_speaker lower strip provider remaining_members = Inr m"
      unfolding sel Some by simp
    have m: "m \<in> set remaining_members" by (subst f(1)) simp
    have ex: "\<exists>c \<in> set remaining_members. matches lower ?sel c"
      using m f(2) by blast
    have shape: "\<exists>before after. remaining_members = before @ m # after \<and>
            matches lower ?sel m \<and> (\<forall>c \<in> set before. \<not> matches lower ?sel c)"
      using f by blast
    show ?thesis
    proof (intro exI [of _ m] conjI)
      show "select_next_speaker lower strip provider remaining_members = Inr m" by (rule res)
      show "m \<in> set remaining_members" by (rule m)
      show "if \<exists>c \<in> set remaining_members. matches lower ?sel c
            then \<exists>before after. remaining_members = before @ m # after \<and>
                   matches lower ?sel m \<and> (\<forall>c \<in> set before. \<not> matches lower ?sel c)
            else m = hd remaining_members"
        using ex shape by (simp only: if_True)
    qed
  qed
  then show ?thesis unfolding Inr by (simp add: Let_def)
qed


theorem select_next_speaker_in_remaining_witness:
  "[''Alice'', ''Bob''] \<noteq> [] \<and>
   (case snd (chat_with_retry DEFAULT_MAX_RETRIES example_reply) of
      Inl e \<Rightarrow> select_next_speaker ascii_lower ascii_strip example_reply [''Alice'', ''Bob''] = Inl e
    | Inr response \<Rightarrow>
        (\<exists>m. select_next_speaker ascii_lower ascii_strip example_reply [''Alice'', ''Bob''] = Inr m \<and>
             m \<in> set [''Alice'', ''Bob''] \<and>
             (let selected = ascii_strip (resp_content response)
              in if \<exists>c \<in> set [''Alice'', ''Bob'']. matches ascii_lower selected c
                 then \<exists>before after. [''Alice'', ''Bob''] = before @ m # after \<and>
                        matches ascii_lower selected m \<and>
                        (\<forall>c \<in> set before. \<not> matches ascii_lower selected c)
                 else m = hd [''Alice'', ''Bob'']))) \<and>
   select_next_speaker ascii_lower ascii_strip example_reply [''Alice'', ''Bob''] = Inr ''Bob'' \<and>
   select_next_speaker ascii_lower ascii_strip unknown_reply [''Alice'', ''Bob''] = Inr ''Alice''"
proof (intro conjI)
  show "[''Alice'', ''Bob''] \<noteq> []" by simp
  show "case snd (chat_with_retry DEFAULT_MAX_RETRIES example_reply) of
      Inl e \<Rightarrow> select_next_speaker ascii_lower ascii_strip example_reply [''Alice'', ''Bob''] = Inl e
    | Inr response \<Rightarrow>
        (\<exists>m. select_next_speaker ascii_lower ascii_strip example_reply [''Alice'', ''Bob''] = Inr m \<and>
             m \<in> set [''Alice'', ''Bob''] \<and>
             (let selected = ascii_strip (resp_content response)
              in if \<exists>c \<in> set [''Alice'', ''Bob'']. matches ascii_lower selected c
                 then \<exists>before after. [''Alice'', ''Bob''] = before @ m # after \<and>
                        matches ascii_lower selected m \<and>
                        (\<forall>c \<in> set before. \<not> matches ascii_lower selected c)
                 else m = hd [''Alice'', ''Bob'']))"
    by (rule select_next_speaker_in_remaining) simp
  show "select_next_speaker ascii_lower ascii_strip example_reply [''Alice'', ''Bob''] = Inr ''Bob''"
    by code_simp
  show "select_next_speaker ascii_lower ascii_strip unknown_reply [''Alice'', ''Bob''] = Inr ''Alice''"
    by code_simp
qed


section \<open>Basic facts about the session\<close>

lemma yield_history [simp]: "history (yield w e s) = history s"
  by (simp add: yield_def Let_def)

lemma yields_history [simp]: "history (foldl (\<lambda>t c. yield w (f c) t) s cs) = history s"
  by (induction cs arbitrary: s) simp_all

lemma yield_fields [simp]:
  "state (yield w e s) = state s"
  "config (yield w e s) = config s"
  "session_members (yield w e s) = session_members s"
  "speech_count (yield w e s) = speech_count s"
  "latest_summary (yield w e s) = latest_summary s"
  "hat_manager (yield w e s) = hat_manager s"
  "current_round (yield w e s) = current_round s"
  "current_hat_info (yield w e s) = current_hat_info s"
  "emitted (yield w e s) = emitted s @ [e]"
  by (simp_all add: yield_def Let_def)

lemma yields_fields [simp]:
  "state (foldl (\<lambda>t c. yield w (f c) t) s cs) = state s"
  "config (foldl (\<lambda>t c. yield w (f c) t) s cs) = config s"
  "session_members (foldl (\<lambda>t c. yield w (f c) t) s cs) = session_members s"
  "speech_count (foldl (\<lambda>t c. yield w (f c) t) s cs) = speech_count s"
  "latest_summary (foldl (\<lambda>t c. yield w (f c) t) s cs) = latest_summary s"
  "hat_manager (foldl (\<lambda>t c. yield w (f c) t) s cs) = hat_manager s"
  "current_round (foldl (\<lambda>t c. yield w (f c) t) s cs) = current_round s"
  "current_hat_info (foldl (\<lambda>t c. yield w (f c) t) s cs) = current_hat_info s"
  "emitted (foldl (\<lambda>t c. yield w (f c) t) s cs) = emitted s @ map f cs"
  by (induction cs arbitrary: s) simp_all

lemma add_message_fields [simp]:
  "state (add_message r c sn mt mid hc hn s) = state s"
  "config (add_message r c sn mt mid hc hn s) = config s"
  "session_members (add_message r c sn mt mid hc hn s) = session_members s"
  "speech_count (add_message r c sn mt mid hc hn s) = speech_count s"
  "hat_manager (add_message r c sn mt mid hc hn s) = hat_manager s"
  "emitted (add_message r c sn mt mid hc hn s) = emitted s"
  "stop_requested (add_message r c sn mt mid hc hn s) = stop_requested s"
  "summary_requested (add_message r c sn mt mid hc hn s) = summary_requested s"
  by (simp_all add: add_message_def)

subsection \<open>C6: the tool round trip of the final summary\<close>

lemma dispatch_searches_parsed:
  assumes "\<forall>tc \<in> set tcs. tc_name tc = ''web_search'' \<longrightarrow> (\<exists>q. json_query w (tc_arguments tc) = Inr q)"
  shows "dispatch_searches w tcs =
     (map (the_query w) (filter (\<lambda>tc. tc_name tc = ''web_search'') tcs),
      Inr (map (\<lambda>tc. (tc, format_results_for_ai w (search w (the_query w tc))))
             (filter (\<lambda>tc. tc_name tc = ''web_search'') tcs)))"
  using assms
proof (induction tcs)
  case Nil
  then show ?case by simp
next
  case (Cons tc tcs)
  then have IH: "dispatch_searches w tcs =
     (map (the_query w) (filter (\<lambda>tc. tc_name tc = ''web_search'') tcs),
      Inr (map (\<lambda>tc. (tc, format_results_for_ai w (search w (the_query w tc))))
             (filter (\<lambda>tc. tc_name tc = ''web_search'') tcs)))" by simp
  show ?case
  proof (cases "tc_name tc = ''web_search''")
    case True
    with Cons.prems obtain q where q: "json_query w (tc_arguments tc) = Inr q" by auto
    then have "the_query w tc = q" by (simp add: the_query_def)
    with True q IH show ?thesis by simp
  next
    case False
    with IH show ?thesis by simp
  qed
qed

lemma final_summary_history:
  "history (snd (final_summary w s)) =
     history s @
     (let r = Moderator_final_summary w (moderator (config s)) (topic (config s)) (history s)
      in case out_raised r of
           Some e \<Rightarrow> []
         | None \<Rightarrow> [final_summary_entry (moderator_display_name (moderator (config s)))
                      (concat (out_chunks r))])"
  by (simp add: final_summary_def Let_def add_message_def final_summary_entry_def split: option.splits)

lemma dispatch_searches_unparsed:
  assumes "find (\<lambda>tc. \<not> parses w tc) (filter (\<lambda>tc. tc_name tc = ''web_search'') tcs) = Some bad"
  shows "\<exists>e. parse_error w bad = Some e \<and>
     dispatch_searches w tcs =
       (map (the_query w) (takeWhile (parses w) (filter (\<lambda>tc. tc_name tc = ''web_search'') tcs)),
        Inl e)"
  using assms
proof (induction tcs)
  case Nil
  then show ?case by simp
next
  case (Cons tc tcs)
  show ?case
  proof (cases "tc_name tc = ''web_search''")
    case False
    with Cons.prems have "find (\<lambda>tc. \<not> parses w tc) (filter (\<lambda>tc. tc_name tc = ''web_search'') tcs) = Some bad"
      by simp
    from Cons.IH [OF this] False show ?thesis by simp
  next
    case True
    show ?thesis
    proof (cases "json_query w (tc_arguments tc)")
      case (Inl e)
      then have np: "\<not> parses w tc" and pe: "parse_error w tc = Some e"
        by (simp_all add: parses_def parse_error_def)
      with True Cons.prems have "bad = tc" by simp
      with True Inl np pe show ?thesis by simp
    next
      case (Inr q)
      then have p: "parses w tc" and q: "the_query w tc = q"
        by (simp_all add: parses_def parse_error_def the_query_def)
      with True Cons.prems have "find (\<lambda>tc. \<not> parses w tc) (filter (\<lambda>tc. tc_name tc = ''web_search'') tcs) = Some bad"
        by simp
      from Cons.IH [OF this] obtain e where
        e: "parse_error w bad = Some e"
        and d: "dispatch_searches w tcs =
          (map (the_query w) (takeWhile (parses w) (filter (\<lambda>tc. tc_name tc = ''web_search'') tcs)),
           Inl e)" by blast
      from True Inr p q d have "dispatch_searches w (tc # tcs) =
          (map (the_query w) (takeWhile (parses w) (filter (\<lambda>tc. tc_name tc = ''web_search'') (tc # tcs))),
           Inl e)" by simp
      with e show ?thesis by blast
    qed
  qed
qed

text \<open>
  C6, as stated, fails: a tool call is sent to the search service only when it is named
  \<^verbatim>\<open>web_search\<close>. Here the first reply asks for one tool call named \<^verbatim>\<open>calculator\<close>:
  no search is made, and the follow-up streaming call is made all the same, with the
  request echoed in the context and no tool result.
\<close>

theorem final_summary_other_tool_counterexample:
  "tool_calls (projr (snd (chat_with_tools 5 (final_tools other_tool_world)))) =
      Some [\<lparr>tc_id = ''call_1'', tc_name = ''calculator'', tc_arguments = tea_arguments\<rparr>] \<and>
   out_calls (chat_with_optional_search other_tool_world [UserMessage ''sum up''] 5) =
     [ToolsCall [UserMessage ''sum up''],
      StreamCall [UserMessage ''sum up'',
        AssistantMessage [] [\<lparr>tc_id = ''call_1'', tc_name = ''calculator'', tc_arguments = tea_arguments\<rparr>]]]"
  by code_simp

text \<open>
  C6, amended. When the first (tool-enabled, non-streaming) reply arrives:
  \<^item> If it asks for tools and the arguments of every call named \<^verbatim>\<open>web_search\<close> parse, each
    such call is sent to the search service, in order, and nothing else is searched; the
    context \<^verbatim>\<open>messages\<close> grows by the assistant turn and one tool-result turn per such
    call; exactly one streaming call follows, on that context, and its fragments are the
    narrative.
  \<^item> If it asks for tools and the arguments of some call named \<^verbatim>\<open>web_search\<close> do not
    parse, the calls named \<^verbatim>\<open>web_search\<close> before the first such call are sent to the search
    service, then the exception of the parse is raised: the context is unchanged, there is
    no streaming call and no narrative.
  \<^item> If it asks for no tool, there is no second call, the context is unchanged and the
    reply's content, if not empty, is the narrative.

  In every case the only entry \<^verbatim>\<open>_final_summary\<close> adds to the session history is the
  FINAL\_SUMMARY entry holding the narrative; it adds none when the summary raises.
\<close>

theorem final_summary_one_tool_round_trip:
  assumes "snd (chat_with_tools max_retries (final_tools w)) = Inr response"
  shows "(let r = chat_with_optional_search w messages max_retries;
              searches = web_search_calls response;
              messages' = messages @
                [AssistantMessage (resp_content response) (the (tool_calls response))] @
                map (tool_message w) searches
          in if requests_tools response
             then (case find (\<lambda>tc. \<not> parses w tc) searches of
                     None \<Rightarrow>
                       out_calls r = ToolsCall messages #
                         map (\<lambda>tc. SearchCall (the_query w tc)) searches @
                         [StreamCall messages'] \<and>
                       out_messages r = messages' \<and>
                       out_chunks r = yielded (fst (stream_chat max_retries (final_stream w))) \<and>
                       out_raised r = snd (stream_chat max_retries (final_stream w))
                   | Some bad \<Rightarrow>
                       out_calls r = ToolsCall messages #
                         map (\<lambda>tc. SearchCall (the_query w tc)) (takeWhile (parses w) searches) \<and>
                       out_messages r = messages \<and>
                       out_chunks r = [] \<and>
                       out_raised r = parse_error w bad \<and>
                       out_raised r \<noteq> None)
             else out_calls r = [ToolsCall messages] \<and>
                  out_messages r = messages \<and>
                  out_chunks r = (if resp_content response \<noteq> [] then [resp_content response] else []) \<and>
                  out_raised r = None) \<and>
         history (snd (final_summary w s)) =
           history s @
           (let r = Moderator_final_summary w (moderator (config s)) (topic (config s)) (history s)
            in case out_raised r of
                 Some e \<Rightarrow> []
               | None \<Rightarrow> [final_summary_entry (moderator_display_name (moderator (config s)))
                            (concat (out_chunks r))])"
proof (rule conjI)
  show "history (snd (final_summary w s)) =
           history s @
           (let r = Moderator_final_summary w (moderator (config s)) (topic (config s)) (history s)
            in case out_raised r of
                 Some e \<Rightarrow> []
               | None \<Rightarrow> [final_summary_entry (moderator_display_name (moderator (config s)))
                            (concat (out_chunks r))])"
    by (rule final_summary_history)
next
  let ?r = "chat_with_optional_search w messages max_retries"
  let ?ws = "web_search_calls response"
  let ?messages' = "messages @
                [AssistantMessage (resp_content response) (the (tool_calls response))] @
                map (tool_message w) ?ws"
  have "if requests_tools response
             then (case find (\<lambda>tc. \<not> parses w tc) ?ws of
                     None \<Rightarrow>
                       out_calls ?r = ToolsCall messages #
                         map (\<lambda>tc. SearchCall (the_query w tc)) ?ws @
                         [StreamCall ?messages'] \<and>
                       out_messages ?r = ?messages' \<and>
                       out_chunks ?r = yielded (fst (stream_chat max_retries (final_stream w))) \<and>
                       out_raised ?r = snd (stream_chat max_retries (final_stream w))
                   | Some bad \<Rightarrow>
                       out_calls ?r = ToolsCall messages #
                         map (\<lambda>tc. SearchCall (the_query w tc)) (takeWhile (parses w) ?ws) \<and>
                       out_messages ?r = messages \<and>
                       out_chunks ?r = [] \<and>
                       out_raised ?r = parse_error w bad \<and>
                       out_raised ?r \<noteq> None)
             else out_calls ?r = [ToolsCall messages] \<and>
                  out_messages ?r = messages \<and>
                  out_chunks ?r = (if resp_content response \<noteq> [] then [resp_content response] else []) \<and>
                  out_raised ?r = None"
  proof (cases "requests_tools response")
    case False
    then have "?r =
        \<lparr>out_chunks = (if resp_content response \<noteq> [] then [resp_content response] else []),
         out_raised = None, out_messages = messages, out_calls = [ToolsCall messages]\<rparr>"
      using assms
      by (simp add: chat_with_optional_search_def requests_tools_def split: option.splits list.splits)
    with False show ?thesis by simp
  next
    case True
    then obtain tc tcs where tcs: "tool_calls response = Some (tc # tcs)"
      by (auto simp: requests_tools_def split: option.splits list.splits)
    have ws: "?ws = filter (\<lambda>tc. tc_name tc = ''web_search'') (tc # tcs)"
      by (simp add: web_search_calls_def tcs)
    show ?thesis
    proof (cases "find (\<lambda>tc. \<not> parses w tc) ?ws")
      case None
      then have p: "\<forall>c \<in> set ?ws. parses w c" by (simp add: find_None_iff)
      have q: "\<exists>q. json_query w (tc_arguments c) = Inr q" if "parses w c" for c
        using that by (cases "json_query w (tc_arguments c)") (simp_all add: parses_def parse_error_def)
      have "\<forall>c \<in> set (tc # tcs). tc_name c = ''web_search'' \<longrightarrow>
                   (\<exists>q. json_query w (tc_arguments c) = Inr q)"
      proof (intro ballI impI)
        fix c assume "c \<in> set (tc # tcs)" "tc_name c = ''web_search''"
        then have "c \<in> set ?ws" unfolding ws set_filter by blast
        with p have "parses w c" by blast
        then show "\<exists>q. json_query w (tc_arguments c) = Inr q" by (rule q)
      qed
      from dispatch_searches_parsed [OF this]
      have d: "dispatch_searches w (tc # tcs) =
         (map (the_query w) ?ws,
          Inr (map (\<lambda>tc. (tc, format_results_for_ai w (search w (the_query w tc)))) ?ws))"
        unfolding ws .
      obtain tr err where sc: "stream_chat max_retries (final_stream w) = (tr, err)"
        by (cases "stream_chat max_retries (final_stream w)")
      have "?r =
          \<lparr>out_chunks = yielded tr, out_raised = err,
           out_messages = messages @ [AssistantMessage (resp_content response) (tc # tcs)] @
                            map (tool_message w) ?ws,
           out_calls = ToolsCall messages # map SearchCall (map (the_query w) ?ws) @
                         [StreamCall (messages @ [AssistantMessage (resp_content response) (tc # tcs)] @
                            map (tool_message w) ?ws)]\<rparr>"
        by (simp add: chat_with_optional_search_def assms tcs d sc tool_message_def [abs_def]
            comp_def Let_def del: dispatch_searches.simps)
      with True None show ?thesis by (simp add: tcs sc comp_def)
    next
      case (Some bad)
      then have "find (\<lambda>tc. \<not> parses w tc) (filter (\<lambda>tc. tc_name tc = ''web_search'') (tc # tcs)) = Some bad"
        unfolding ws .
      from dispatch_searches_unparsed [OF this] obtain e where
        e: "parse_error w bad = Some e"
        and d: "dispatch_searches w (tc # tcs) = (map (the_query w) (takeWhile (parses w) ?ws), Inl e)"
        unfolding ws by blast
      have "?r =
          \<lparr>out_chunks = [], out_raised = Some e, out_messages = messages,
           out_calls = ToolsCall messages #
                         map SearchCall (map (the_query w) (takeWhile (parses w) ?ws))\<rparr>"
        by (simp add: chat_with_optional_search_def assms tcs d del: dispatch_searches.simps)
      with True Some e show ?thesis by (simp add: comp_def)
    qed
  qed
  then show "let r = chat_with_optional_search w messages max_retries;
              searches = web_search_calls response;
              messages' = messages @
                [AssistantMessage (resp_content response) (the (tool_calls response))] @
                map (tool_message w) searches
          in if requests_tools response
             then (case find (\<lambda>tc. \<not> parses w tc) searches of
                     None \<Rightarrow>
                       out_calls r = ToolsCall messages #
                         map (\<lambda>tc. SearchCall (the_query w tc)) searches @
                         [StreamCall messages'] \<and>
                       out_messages r = messages' \<and>
                       out_chunks r = yielded (fst (stream_chat max_retries (final_stream w))) \<and>
                       out_raised r = snd (stream_chat max_retries (final_stream w))
                   | Some bad \<Rightarrow>
                       out_calls r = ToolsCall messages #
                         map (\<lambda>tc. SearchCall (the_query w tc)) (takeWhile (parses w) searches) \<and>
                       out_messages r = messages \<and>
                       out_chunks r = [] \<and>
                       out_raised r = parse_error w bad \<and>
                       out_raised r \<noteq> None)
             else out_calls r = [ToolsCall messages] \<and>
                  out_messages r = messages \<and>
                  out_chunks r = (if resp_content response \<noteq> [] then [resp_content response] else []) \<and>
                  out_raised r = None"
    unfolding Let_def .
qed

theorem final_summary_one_tool_round_trip_witness:
  "snd (chat_with_tools 5 (final_tools search_world)) =
     Inr \<lparr>resp_content = [],
          tool_calls = Some [\<lparr>tc_id = ''call_1'', tc_name = ''web_search'', tc_arguments = tea_arguments\<rparr>],
          finish_reason = ''tool_calls''\<rparr> \<and>
   json_query search_world tea_arguments = Inr ''tea'' \<and>
   out_calls (chat_with_optional_search search_world [UserMessage ''sum up''] 5) =
     [ToolsCall [UserMessage ''sum up''], SearchCall ''tea'',
      StreamCall [UserMessage ''sum up'',
        AssistantMessage [] [\<lparr>tc_id = ''call_1'', tc_name = ''web_search'', tc_arguments = tea_arguments\<rparr>],
        ToolMessage ''call_1'' tea_results]] \<and>
   out_chunks (chat_with_optional_search search_world [UserMessage ''sum up''] 5) = [''Searched''] \<and>
   history (snd (final_summary search_world (Session_init two_members))) =
     [final_summary_entry ''Max'' ''Searched''] \<and>
   snd (chat_with_tools 5 (final_tools unparsed_world)) =
     Inr \<lparr>resp_content = [],
          tool_calls = Some [\<lparr>tc_id = ''call_1'', tc_name = ''web_search'', tc_arguments = tea_arguments\<rparr>,
                             \<lparr>tc_id = ''call_2'', tc_name = ''web_search'', tc_arguments = ''tea''\<rparr>,
                             \<lparr>tc_id = ''call_3'', tc_name = ''web_search'', tc_arguments = tea_arguments\<rparr>],
          finish_reason = ''tool_calls''\<rparr> \<and>
   out_calls (chat_with_optional_search unparsed_world [UserMessage ''sum up''] 5) =
     [ToolsCall [UserMessage ''sum up''], SearchCall ''tea''] \<and>
   out_raised (chat_with_optional_search unparsed_world [UserMessage ''sum up''] 5) =
     Some (Exn JSONDecodeError ''Expecting value: line 1 column 1 (char 0)'') \<and>
   out_messages (chat_with_optional_search unparsed_world [UserMessage ''sum up''] 5) =
     [UserMessage ''sum up''] \<and>
   history (snd (final_summary unparsed_world (Session_init two_members))) = []"
proof -
  let ?tc1 = "\<lparr>tc_id = ''call_1'', tc_name = ''web_search'', tc_arguments = tea_arguments\<rparr>"
  let ?tc2 = "\<lparr>tc_id = ''call_2'', tc_name = ''web_search'', tc_arguments = ''tea''\<rparr>"
  let ?tc3 = "\<lparr>tc_id = ''call_3'', tc_name = ''web_search'', tc_arguments = tea_arguments\<rparr>"
  let ?resp = "\<lparr>resp_content = [], tool_calls = Some [?tc1], finish_reason = ''tool_calls''\<rparr>"
  let ?resp' = "\<lparr>resp_content = [], tool_calls = Some [?tc1, ?tc2, ?tc3], finish_reason = ''tool_calls''\<rparr>"
  let ?s = "Session_init two_members"
  have a1: "snd (chat_with_tools 5 (final_tools search_world)) = Inr ?resp"
    by code_simp
  have b1: "snd (chat_with_tools 5 (final_tools unparsed_world)) = Inr ?resp'"
    by code_simp
  have ne: "''tea'' \<noteq> tea_arguments" by (simp add: tea_arguments_def)
  have j: "json_query search_world = example_json_query" "json_query unparsed_world = example_json_query"
    by (simp_all add: search_world_def unparsed_world_def quiet_world_def)
  have w2: "json_query search_world tea_arguments = Inr ''tea''"
    by (simp add: j example_json_query_def)
  have p: "parses search_world ?tc1" "parses unparsed_world ?tc1" "\<not> parses unparsed_world ?tc2"
    by (simp_all add: parses_def parse_error_def j example_json_query_def ne)
  have pe: "parse_error unparsed_world ?tc2 =
      Some (Exn JSONDecodeError ''Expecting value: line 1 column 1 (char 0)'')"
    by (simp add: parse_error_def j example_json_query_def ne)
  have q: "the_query search_world ?tc1 = ''tea''" "the_query unparsed_world ?tc1 = ''tea''"
    by (simp_all add: the_query_def j example_json_query_def)
  have t: "tool_message search_world ?tc1 = ToolMessage ''call_1'' tea_results"
    by code_simp
  have e1: "stream_chat 5 (final_stream search_world) = ([Create, Yield ''Searched'', Sleep REQUEST_DELAY], None)"
    by code_simp
  have e2: "Moderator_final_summary w c t h =
      chat_with_optional_search w [SystemMessage (system_prompt w c),
        UserMessage (get_final_summary_prompt w t (format_full_history h))] 5" for w c t h
    by (simp add: Moderator_final_summary_def)
  have s0: "history ?s = []" "moderator_display_name (moderator (config ?s)) = ''Max''"
    by (simp_all add: Session_init_def two_members_def)
  from final_summary_one_tool_round_trip [OF a1, of "[UserMessage ''sum up'']" ?s]
  have g1: "out_calls (chat_with_optional_search search_world [UserMessage ''sum up''] 5) =
     [ToolsCall [UserMessage ''sum up''], SearchCall ''tea'',
      StreamCall [UserMessage ''sum up'', AssistantMessage [] [?tc1], ToolMessage ''call_1'' tea_results]]"
    and g2: "out_chunks (chat_with_optional_search search_world [UserMessage ''sum up''] 5) = [''Searched'']"
    by (simp_all add: Let_def requests_tools_def web_search_calls_def p q t e1)
  from final_summary_one_tool_round_trip [OF a1, of "[SystemMessage (system_prompt search_world (moderator (config ?s))),
        UserMessage (get_final_summary_prompt search_world (topic (config ?s)) (format_full_history (history ?s)))]" ?s]
  have g3: "history (snd (final_summary search_world ?s)) = [final_summary_entry ''Max'' ''Searched'']"
    by (simp add: Let_def requests_tools_def web_search_calls_def p q t e1 e2 s0)
  from final_summary_one_tool_round_trip [OF b1, of "[UserMessage ''sum up'']" ?s]
  have g4: "out_calls (chat_with_optional_search unparsed_world [UserMessage ''sum up''] 5) =
     [ToolsCall [UserMessage ''sum up''], SearchCall ''tea'']"
    and g5: "out_raised (chat_with_optional_search unparsed_world [UserMessage ''sum up''] 5) =
     Some (Exn JSONDecodeError ''Expecting value: line 1 column 1 (char 0)'')"
    and g6: "out_messages (chat_with_optional_search unparsed_world [UserMessage ''sum up''] 5) =
     [UserMessage ''sum up'']"
    by (simp_all add: Let_def requests_tools_def web_search_calls_def p pe q)
  from final_summary_one_tool_round_trip [OF b1, of "[SystemMessage (system_prompt unparsed_world (moderator (config ?s))),
        UserMessage (get_final_summary_prompt unparsed_world (topic (config ?s)) (format_full_history (history ?s)))]" ?s]
  have g7: "history (snd (final_summary unparsed_world ?s)) = []"
    by (simp add: Let_def requests_tools_def web_search_calls_def p pe q e2 s0)
  show ?thesis
    by (intro conjI) (rule a1 w2 g1 g2 g3 b1 g4 g5 g6 g7)+
qed


section \<open>Properties of a turn\<close>

lemma member_speak_turn:
  assumes "map_of (session_members s) member_name = Some member"
  shows "\<exists>hat hm.
     assign_hat (hat_manager s) (speech_count s = 1) (hat_draws w (speech_count s)) = Inr (hat, hm) \<and>
     (speech_count s = 1 \<longrightarrow> hat \<in> set FIRST_SPEAKER_HATS) \<and>
     fst (member_speak w member_name s) = None \<and>
     emitted (snd (member_speak w member_name s)) =
       emitted s @ turn_events member_name (get_hat_info hat) (speech_count s)
                     (fst (Member_speak w (speech_count s))) (snd (Member_speak w (speech_count s))) \<and>
     history (snd (member_speak w member_name s)) =
       history s @
       (case snd (Member_speak w (speech_count s)) of
          Some e \<Rightarrow> []
        | None \<Rightarrow> [speech_entry member_name member (get_hat_info hat)
                     (concat (fst (Member_speak w (speech_count s))))]) \<and>
     session_members (snd (member_speak w member_name s)) = session_members s \<and>
     config (snd (member_speak w member_name s)) = config s \<and>
     speech_count (snd (member_speak w member_name s)) = speech_count s \<and>
     state (snd (member_speak w member_name s)) = state s"
proof -
  from assign_hat_total [of "hat_manager s" "speech_count s = 1" "hat_draws w (speech_count s)"]
  obtain hat hm where
    a: "assign_hat (hat_manager s) (speech_count s = 1) (hat_draws w (speech_count s)) = Inr (hat, hm)"
    and f: "speech_count s = 1 \<longrightarrow> hat \<in> set FIRST_SPEAKER_HATS" by blast
  obtain chunks err where m: "Member_speak w (speech_count s) = (chunks, err)"
    by (cases "Member_speak w (speech_count s)")
  show ?thesis
  proof (cases err)
    case None
    with assms a m f show ?thesis
      by (simp add: member_speak_def Let_def turn_events_def speech_entry_def add_message_def)
  next
    case (Some e)
    with assms a m f show ?thesis
      by (simp add: member_speak_def Let_def turn_events_def)
  qed
qed


subsection \<open>C10: a retried stream repeats its fragments\<close>

lemma yielded_append [simp]: "yielded (xs @ ys) = yielded xs @ yielded ys"
  by (induction xs rule: yielded.induct) simp_all

lemma yielded_Yield [simp]: "yielded (map Yield ts) = ts"
  by (induction ts) simp_all

lemma stream_chat_one_retry:
  assumes "provider 0 = (chunks0, Some e)" "retryable e" "0 < max_retries"
    and "provider 1 = (chunks1, None)"
  shows "stream_chat max_retries provider =
     (Create # map Yield (concat (map chunk_text chunks0)) @ Sleep (BASE_RETRY_DELAY * 2 ^ 0) #
      Create # map Yield (concat (map chunk_text chunks1)) @ [Sleep REQUEST_DELAY], None)"
proof -
  have "stream_chat_loop max_retries provider [0..<nat (max_retries + 1)] None =
     (concat (map (\<lambda>i. Create # map Yield (concat (map chunk_text (fst (provider i)))) @
                      [Sleep (BASE_RETRY_DELAY * 2 ^ i)]) [0..<1]) @
        Create # map Yield (concat (map chunk_text (fst (provider 1)))) @
        (case snd (provider 1) of None \<Rightarrow> [Sleep REQUEST_DELAY] | Some e \<Rightarrow> []),
      snd (provider 1))"
  proof (rule stream_chat_loop_from)
    show "0 \<le> (1::nat)" by simp
    show "int 1 \<le> max_retries" using assms(3) by simp
    show "\<forall>i. 0 \<le> i \<and> i < 1 \<longrightarrow> stream_retryable_failure (provider i)"
      using assms(1,2) by (simp add: stream_retryable_failure_def)
    show "int 1 = max_retries \<or> \<not> stream_retryable_failure (provider 1)"
      using assms(4) by (simp add: stream_retryable_failure_def)
  qed
  moreover have "provider (Suc 0) = (chunks1, None)" using assms(4) by simp
  ultimately show ?thesis by (simp add: stream_chat_def assms(1))
qed

text \<open>
  C10. In a streaming call with at least one retry allowed, if the first attempt delivers
  the chunks \<open>chunks0\<close> and then raises a rate-limit or provider-status error, and the
  second attempt delivers \<open>chunks1\<close> and ends, the request is issued twice and the consumer
  receives the fragments of the first attempt followed by all the fragments of the second,
  from its beginning: what the provider repeats of its first answer arrives twice. A
  member's turn (two retries) concatenates all of them into the content of its SPEECH
  entry.
\<close>

theorem stream_retry_repeats_fragments:
  assumes "provider 0 = (chunks0, Some e)" "retryable e" "0 < max_retries"
    and "provider 1 = (chunks1, None)"
  shows "stream_chat max_retries provider =
           (Create # map Yield (concat (map chunk_text chunks0)) @ Sleep (BASE_RETRY_DELAY * 2 ^ 0) #
            Create # map Yield (concat (map chunk_text chunks1)) @ [Sleep REQUEST_DELAY], None) \<and>
         yielded (fst (stream_chat max_retries provider)) =
           concat (map chunk_text chunks0) @ concat (map chunk_text chunks1) \<and>
         (max_retries = 2 \<and> speak_stream w (speech_count s) = provider \<and>
          map_of (session_members s) member_name = Some member \<longrightarrow>
          (\<exists>hi. history (snd (member_speak w member_name s)) =
             history s @
             [speech_entry member_name member hi
                (concat (concat (map chunk_text chunks0) @ concat (map chunk_text chunks1)))]))"
proof (intro conjI impI)
  show sc: "stream_chat max_retries provider =
           (Create # map Yield (concat (map chunk_text chunks0)) @ Sleep (BASE_RETRY_DELAY * 2 ^ 0) #
            Create # map Yield (concat (map chunk_text chunks1)) @ [Sleep REQUEST_DELAY], None)"
    using assms by (rule stream_chat_one_retry)
  show "yielded (fst (stream_chat max_retries provider)) =
           concat (map chunk_text chunks0) @ concat (map chunk_text chunks1)"
    by (simp add: sc)
  assume h: "max_retries = 2 \<and> speak_stream w (speech_count s) = provider \<and>
          map_of (session_members s) member_name = Some member"
  then have ms: "Member_speak w (speech_count s) =
      (concat (map chunk_text chunks0) @ concat (map chunk_text chunks1), None)"
    using sc by (simp add: Member_speak_def)
  from h have "map_of (session_members s) member_name = Some member" by simp
  from member_speak_turn [OF this, of w] obtain hat where
    "history (snd (member_speak w member_name s)) =
       history s @
       (case snd (Member_speak w (speech_count s)) of
          Some e \<Rightarrow> []
        | None \<Rightarrow> [speech_entry member_name member (get_hat_info hat)
                     (concat (fst (Member_speak w (speech_count s))))])" by blast
  then show "\<exists>hi. history (snd (member_speak w member_name s)) =
             history s @
             [speech_entry member_name member hi
                (concat (concat (map chunk_text chunks0) @ concat (map chunk_text chunks1)))]"
    unfolding ms by auto
qed


theorem stream_retry_repeats_fragments_witness:
  "repeat_provider 0 = ([[Some ''Hel'']], Some (Exn RateLimitError ''429'')) \<and>
   retryable (Exn RateLimitError ''429'') \<and> (0::int) < 2 \<and>
   repeat_provider 1 = ([[Some ''Hel''], [Some ''lo'']], None) \<and>
   yielded (fst (stream_chat 2 repeat_provider)) = [''Hel'', ''Hel'', ''lo''] \<and>
   map (\<lambda>m. (message_type m, content m))
     (history (snd (member_speak repeat_world ''Alice'' (Session_init two_members)))) =
     [(SPEECH, ''HelHello'')]"
proof -
  have a1: "repeat_provider 0 = ([[Some ''Hel'']], Some (Exn RateLimitError ''429''))"
    by (simp add: repeat_provider_def)
  have a2: "retryable (Exn RateLimitError ''429'')" by (simp add: retryable_def)
  have a3: "(0::int) < 2" by simp
  have a4: "repeat_provider 1 = ([[Some ''Hel''], [Some ''lo'']], None)"
    by (simp add: repeat_provider_def)
  have m: "map_of (session_members (Session_init two_members)) ''Alice'' =
      Some \<lparr>member_model_id = ''m1'', display_name = ''Alice'', member_system_prompt = [],
            enabled = True\<rparr>"
    by (simp add: Session_init_def two_members_def)
  have p: "speak_stream repeat_world (speech_count (Session_init two_members)) = repeat_provider"
    by (simp add: repeat_world_def quiet_world_def)
  have h: "history (Session_init two_members) = []" by (simp add: Session_init_def)
  from stream_retry_repeats_fragments [OF a1 a2 a3 a4, of repeat_world "Session_init two_members"
      "''Alice''" "\<lparr>member_model_id = ''m1'', display_name = ''Alice'', member_system_prompt = [],
            enabled = True\<rparr>"] m p h
  show ?thesis using a1 a2 a4 by (auto simp: speech_entry_def)
qed


section \<open>Properties of the run\<close>

subsection \<open>C8: the speaking order\<close>

lemma swap_length [simp]: "length (swap i j xs) = length xs"
  by (simp add: swap_def)

lemma swap_mset: "i < length xs \<Longrightarrow> j < length xs \<Longrightarrow> mset (swap i j xs) = mset xs"
  unfolding swap_def by (rule mset_swap)

lemma shuffle_steps:
  "\<forall>i \<in> set steps. i < length xs \<Longrightarrow>
   length (foldl (\<lambda>ys i. swap i (draw i mod (i + 1)) ys) xs steps) = length xs \<and>
   mset (foldl (\<lambda>ys i. swap i (draw i mod (i + 1)) ys) xs steps) = mset xs"
proof (induction steps arbitrary: xs)
  case Nil
  then show ?case by simp
next
  case (Cons i steps)
  from Cons.prems have i: "i < length xs" by simp
  have j: "draw i mod (i + 1) < length xs"
    using i by (metis Suc_eq_plus1 less_Suc_eq_le mod_less_divisor order_le_less_trans zero_less_Suc)
  let ?ys = "swap i (draw i mod (i + 1)) xs"
  have "\<forall>k \<in> set steps. k < length ?ys" using Cons.prems by simp
  from Cons.IH [OF this] show ?case using swap_mset [OF i j] by simp
qed

lemma random_shuffle_perm:
  "length (random_shuffle draw xs) = length xs \<and> mset (random_shuffle draw xs) = mset xs"
  unfolding random_shuffle_def by (rule shuffle_steps) auto

lemma concat_blocks:
  "\<forall>b \<in> set bs. length b = n \<Longrightarrow> r < length bs \<Longrightarrow>
   take n (drop (r * n) (concat bs)) = bs ! r"
proof (induction bs arbitrary: r)
  case Nil
  then show ?case by simp
next
  case (Cons b bs)
  show ?case
  proof (cases r)
    case 0
    with Cons.prems show ?thesis by simp
  next
    case (Suc r')
    with Cons.prems have "take n (drop (r' * n) (concat bs)) = bs ! r'" by (intro Cons.IH) auto
    moreover have "length b = n" using Cons.prems by simp
    ultimately show ?thesis by (simp add: Suc)
  qed
qed

lemma length_concat_blocks:
  "\<forall>b \<in> set bs. length b = n \<Longrightarrow> length (concat bs) = n * length bs"
  by (induction bs) simp_all

text \<open>
  C8. \<^verbatim>\<open>run\<close> computes the whole order before its loop starts, from the member names and
  the draws of the shuffles alone. The order has \<open>participants \<times> rounds\<close> entries; its
  \<open>r\<close>-th block is the shuffle of the member names with the draws of round \<open>r\<close> only,
  and it is a permutation of the member names. Nothing is removed where two blocks meet,
  so the member that closes one round may open the next (in the example below Alice does).
  That the permutations are uniformly distributed is a property of the library's generator,
  which the model takes as the source of the draws.
\<close>

theorem speaking_order_rounds:
  "length (speaking_order w s) = length (member_names s) * nat (total_rounds (config s)) \<and>
   (\<forall>r < nat (total_rounds (config s)).
      round_block w s r = random_shuffle (shuffle_draws w r) (member_names s) \<and>
      mset (round_block w s r) = mset (member_names s))"
proof -
  let ?n = "length (member_names s)"
  let ?bs = "map (\<lambda>round_num. random_shuffle (shuffle_draws w round_num) (member_names s))
               [0..<nat (total_rounds (config s))]"
  have len: "\<forall>b \<in> set ?bs. length b = ?n" by (auto simp: random_shuffle_perm)
  have o: "speaking_order w s = concat ?bs" by (simp add: speaking_order_def)
  have "length (speaking_order w s) = ?n * nat (total_rounds (config s))"
    unfolding o using length_concat_blocks [OF len] by simp
  moreover have "round_block w s r = random_shuffle (shuffle_draws w r) (member_names s) \<and>
      mset (round_block w s r) = mset (member_names s)" if "r < nat (total_rounds (config s))" for r
  proof -
    from that have "r < length ?bs" by simp
    from concat_blocks [OF len this] that
    have "round_block w s r = random_shuffle (shuffle_draws w r) (member_names s)"
      unfolding round_block_def o by simp
    then show ?thesis by (simp add: random_shuffle_perm)
  qed
  ultimately show ?thesis by blast
qed


theorem speaking_order_rounds_witness:
  "speaking_order boundary_world two_rounds = [''Bob'', ''Alice'', ''Alice'', ''Bob''] \<and>
   member_names two_rounds = [''Alice'', ''Bob''] \<and>
   length (speaking_order boundary_world two_rounds) = 2 * 2 \<and>
   (0::nat) < nat (total_rounds (config two_rounds)) \<and>
   round_block boundary_world two_rounds 0 =
     random_shuffle (shuffle_draws boundary_world 0) (member_names two_rounds) \<and>
   mset (round_block boundary_world two_rounds 0) = mset [''Alice'', ''Bob'']"
proof -
  have o: "speaking_order boundary_world two_rounds = [''Bob'', ''Alice'', ''Alice'', ''Bob'']"
    by code_simp
  have n: "member_names two_rounds = [''Alice'', ''Bob'']"
    by code_simp
  have r: "nat (total_rounds (config two_rounds)) = 2"
    by (simp add: two_rounds_def Session_init_def)
  from speaking_order_rounds [of boundary_world two_rounds]
  have l: "length (speaking_order boundary_world two_rounds) =
      length (member_names two_rounds) * nat (total_rounds (config two_rounds))"
    and b: "\<forall>r < nat (total_rounds (config two_rounds)).
      round_block boundary_world two_rounds r =
        random_shuffle (shuffle_draws boundary_world r) (member_names two_rounds) \<and>
      mset (round_block boundary_world two_rounds r) = mset (member_names two_rounds)"
    by blast+
  have "(0::nat) < nat (total_rounds (config two_rounds))" by (simp add: r)
  with b have e1: "round_block boundary_world two_rounds 0 =
        random_shuffle (shuffle_draws boundary_world 0) (member_names two_rounds)"
    and e2: "mset (round_block boundary_world two_rounds 0) = mset (member_names two_rounds)"
    by blast+
  show ?thesis
  proof (intro conjI)
    show "speaking_order boundary_world two_rounds = [''Bob'', ''Alice'', ''Alice'', ''Bob'']"
      by (rule o)
    show "member_names two_rounds = [''Alice'', ''Bob'']" by (rule n)
    show "length (speaking_order boundary_world two_rounds) = 2 * 2"
      using l by (simp add: n r)
    show "(0::nat) < nat (total_rounds (config two_rounds))" by (simp add: r)
    show "round_block boundary_world two_rounds 0 =
        random_shuffle (shuffle_draws boundary_world 0) (member_names two_rounds)" by (rule e1)
    show "mset (round_block boundary_world two_rounds 0) = mset [''Alice'', ''Bob'']"
      using e2 by (simp only: n)
  qed
qed

section \<open>Properties of the speaking loop\<close>

lemma grows_refl [simp]: "grows s s"
  by (simp add: grows_def)

lemma grows_trans: "grows s s' \<Longrightarrow> grows s' s'' \<Longrightarrow> grows s s''"
  unfolding grows_def by (elim conjE exE) (auto intro: prefix_order.trans)

lemma yield_flags:
  "stop_requested (yield w e s) = (stop_requested s \<or> fst (signals w (Suc (length (emitted s)))))"
  "summary_requested (yield w e s) = (summary_requested s \<or> snd (signals w (Suc (length (emitted s)))))"
  by (simp_all add: yield_def Let_def)

lemma add_message_history [simp]:
  "history (add_message r c sn mt mid hc hn s) =
     history s @ [\<lparr>role = r, content = c, speaker_name = sn, model_id = mid, message_type = mt,
                   sources = [], hat_color = hc, hat_name = hn\<rparr>]"
  by (simp add: add_message_def)

lemma turn_start_fields [simp]:
  "config (turn_start i n s) = config s"
  "session_members (turn_start i n s) = session_members s"
  "history (turn_start i n s) = history s"
  "emitted (turn_start i n s) = emitted s"
  "speech_count (turn_start i n s) = Suc (speech_count s)"
  "stop_requested (turn_start i n s) = stop_requested s"
  "summary_requested (turn_start i n s) = summary_requested s"
  "hat_manager (turn_start i n s) = hat_manager s"
  "state (turn_start i n s) = state s"
  by (simp_all add: turn_start_def)

lemma member_speak_grows:
  assumes "map_of (session_members s) member_name = Some member"
  shows "grows s (snd (member_speak w member_name s))"
proof -
  from member_speak_turn [OF assms, of w] obtain hat where
    e: "emitted (snd (member_speak w member_name s)) =
       emitted s @ turn_events member_name (get_hat_info hat) (speech_count s)
                     (fst (Member_speak w (speech_count s))) (snd (Member_speak w (speech_count s)))"
    and h: "history (snd (member_speak w member_name s)) =
       history s @
       (case snd (Member_speak w (speech_count s)) of
          Some e \<Rightarrow> []
        | None \<Rightarrow> [speech_entry member_name member (get_hat_info hat)
                     (concat (fst (Member_speak w (speech_count s))))])"
    and f: "session_members (snd (member_speak w member_name s)) = session_members s"
       "config (snd (member_speak w member_name s)) = config s"
    by blast
  have "\<forall>m \<in> set (case snd (Member_speak w (speech_count s)) of
          Some e \<Rightarrow> []
        | None \<Rightarrow> [speech_entry member_name member (get_hat_info hat)
                     (concat (fst (Member_speak w (speech_count s))))]).
          message_type m = SPEECH \<or> message_type m = ROUND_SUMMARY"
    by (simp add: speech_entry_def split: option.splits)
  moreover have "prefix (emitted s) (emitted (snd (member_speak w member_name s)))"
    unfolding e by simp
  ultimately show ?thesis unfolding grows_def using h f by blast
qed

lemma after_speech_summary_grows:
  "grows s (snd (after_speech_summary w s))"
proof (cases "find (\<lambda>m. message_type m = SPEECH) (rev (history s))")
  case None
  then show ?thesis by (simp add: after_speech_summary_def)
next
  case (Some last_speech)
  obtain chunks err where m: "Moderator_after_speech_summary w (speech_count s) = (chunks, err)"
    by (cases "Moderator_after_speech_summary w (speech_count s)")
  show ?thesis
  proof (cases err)
    case None
    with Some m show ?thesis
      by (simp add: after_speech_summary_def Let_def grows_def)
  next
    case (Some e)
    with \<open>find (\<lambda>m. message_type m = SPEECH) (rev (history s)) = Some last_speech\<close> m show ?thesis
      by (simp add: after_speech_summary_def Let_def grows_def)
  qed
qed

lemma after_speech_summary_ok:
  assumes "snd (Moderator_after_speech_summary w (speech_count s)) = None"
  shows "fst (after_speech_summary w s) = None"
proof (cases "find (\<lambda>m. message_type m = SPEECH) (rev (history s))")
  case None
  then show ?thesis by (simp add: after_speech_summary_def)
next
  case (Some last_speech)
  obtain chunks err where m: "Moderator_after_speech_summary w (speech_count s) = (chunks, err)"
    by (cases "Moderator_after_speech_summary w (speech_count s)")
  with assms have "err = None" by simp
  with Some m show ?thesis by (simp add: after_speech_summary_def Let_def)
qed


lemma turn_start_grows: "grows s (turn_start i n s)"
  by (simp add: grows_def)

lemma speaking_loop_result:
  assumes "\<forall>member_name \<in> set order. map_of (session_members s) member_name \<noteq> None"
  shows "grows s (snd (speaking_loop w total_speeches speeches_per_round i order s)) \<and>
         ((\<forall>n. snd (Moderator_after_speech_summary w n) = None) \<longrightarrow>
          fst (speaking_loop w total_speeches speeches_per_round i order s) = None)"
  using assms
proof (induction order arbitrary: i s)
  case Nil
  then show ?case by simp
next
  case (Cons member_name rest)
  let ?ok = "\<forall>n. snd (Moderator_after_speech_summary w n) = None"
  show ?case
  proof (cases "stop_requested s \<or> summary_requested s")
    case True
    then show ?thesis by simp
  next
    case False
    let ?s1 = "turn_start i speeches_per_round s"
    from Cons.prems obtain member where
      member: "map_of (session_members ?s1) member_name = Some member" by auto
    obtain r s2 where ms: "member_speak w member_name ?s1 = (r, s2)"
      by (cases "member_speak w member_name ?s1")
    from member_speak_turn [OF member, of w] ms have r: "r = None" by auto
    from member_speak_grows [OF member, of w] ms have g2: "grows ?s1 s2" by simp
    have g: "grows s s2" using turn_start_grows g2 by (rule grows_trans)
    have known: "\<forall>name \<in> set rest. map_of (session_members s') name \<noteq> None" if "grows s2 s'" for s'
      using Cons.prems g that by (simp add: grows_def)
    let ?succeeded = "list_ex (\<lambda>event. is_final event \<and> event_type event = ''member'')
                         (drop (length (emitted ?s1)) (emitted s2))"
    show ?thesis
    proof (cases "stop_requested s2 \<or> summary_requested s2")
      case True
      with False ms r g show ?thesis by (simp add: turn_start_def)
    next
      case flags: False
      show ?thesis
      proof (cases "?succeeded \<and> int i < total_speeches - 1")
        case no: False
        have IH: "grows s2 (snd (speaking_loop w total_speeches speeches_per_round (i + 1) rest s2)) \<and>
            (?ok \<longrightarrow> fst (speaking_loop w total_speeches speeches_per_round (i + 1) rest s2) = None)"
          by (rule Cons.IH) (rule known, simp)
        with g have "grows s (snd (speaking_loop w total_speeches speeches_per_round (i + 1) rest s2))"
          by (blast intro: grows_trans)
        moreover have "speaking_loop w total_speeches speeches_per_round i (member_name # rest) s =
            speaking_loop w total_speeches speeches_per_round (i + 1) rest s2"
          using False ms r flags no by (auto simp: turn_start_def)
        ultimately show ?thesis using IH by simp
      next
        case yes: True
        obtain r3 s3 where as: "after_speech_summary w s2 = (r3, s3)"
          by (cases "after_speech_summary w s2")
        from after_speech_summary_grows [of s2 w] as have g3: "grows s2 s3" by simp
        with g have g': "grows s s3" by (rule grows_trans)
        have ok3: "?ok \<longrightarrow> r3 = None"
          using after_speech_summary_ok [of w s2] as by auto
        show ?thesis
        proof (cases r3)
          case (Some e)
          have "speaking_loop w total_speeches speeches_per_round i (member_name # rest) s = (Some e, s3)"
            using False ms r flags yes as Some by (auto simp: turn_start_def)
          with g' ok3 Some show ?thesis by simp
        next
          case None
          have IH: "grows s3 (snd (speaking_loop w total_speeches speeches_per_round (i + 1) rest s3)) \<and>
              (?ok \<longrightarrow> fst (speaking_loop w total_speeches speeches_per_round (i + 1) rest s3) = None)"
            by (rule Cons.IH) (rule known, rule g3)
          with g' have "grows s (snd (speaking_loop w total_speeches speeches_per_round (i + 1) rest s3))"
            by (blast intro: grows_trans)
          moreover have "speaking_loop w total_speeches speeches_per_round i (member_name # rest) s =
              speaking_loop w total_speeches speeches_per_round (i + 1) rest s3"
            using False ms r flags yes as None by (auto simp: turn_start_def)
          ultimately show ?thesis using IH by simp
        qed
      qed
    qed
  qed
qed

lemma set_random_shuffle [simp]: "set (random_shuffle draw xs) = set xs"
  using random_shuffle_perm [of draw xs] by (metis set_mset_mset)

lemma speaking_order_known:
  "\<forall>member_name \<in> set (speaking_order w s). map_of (session_members s) member_name \<noteq> None"
proof
  fix member_name
  assume "member_name \<in> set (speaking_order w s)"
  then have "member_name \<in> set (member_names s)"
    by (auto simp: speaking_order_def split: if_splits)
  then have "member_name \<in> fst ` set (session_members s)" by (simp add: member_names_def)
  then show "map_of (session_members s) member_name \<noteq> None"
    by (simp add: map_of_eq_None_iff)
qed


lemma yields_flags_mono:
  "stop_requested s \<Longrightarrow> stop_requested (foldl (\<lambda>t c. yield w (f c) t) s cs)"
  "summary_requested s \<Longrightarrow> summary_requested (foldl (\<lambda>t c. yield w (f c) t) s cs)"
  by (induction cs arbitrary: s) (simp_all add: yield_flags)

lemma member_speak_flags_mono:
  "stop_requested s \<Longrightarrow> stop_requested (snd (member_speak w member_name s))"
  "summary_requested s \<Longrightarrow> summary_requested (snd (member_speak w member_name s))"
  by (simp_all add: member_speak_def Let_def yield_flags yields_flags_mono add_message_def
      split: option.splits sum.splits prod.splits)

lemma speaking_loop_first_turn:
  assumes known: "\<forall>name \<in> set (member_name # rest). map_of (session_members s) name \<noteq> None"
    and clear: "\<not> stop_requested s" "\<not> summary_requested s"
  shows "grows (snd (member_speak w member_name (turn_start i speeches_per_round s)))
           (snd (speaking_loop w total_speeches speeches_per_round i (member_name # rest) s))"
proof -
  let ?s1 = "turn_start i speeches_per_round s"
  from known obtain member where
    member: "map_of (session_members ?s1) member_name = Some member" by auto
  obtain r s2 where ms: "member_speak w member_name ?s1 = (r, s2)"
    by (cases "member_speak w member_name ?s1")
  from member_speak_turn [OF member, of w] ms have r: "r = None" by auto
  from member_speak_grows [OF member, of w] ms have g2: "grows ?s1 s2" by simp
  have known': "\<forall>name \<in> set rest. map_of (session_members s') name \<noteq> None" if "grows s2 s'" for s'
    using known g2 that by (simp add: grows_def)
  let ?succeeded = "list_ex (\<lambda>event. is_final event \<and> event_type event = ''member'')
                       (drop (length (emitted ?s1)) (emitted s2))"
  have "grows s2 (snd (speaking_loop w total_speeches speeches_per_round i (member_name # rest) s))"
  proof (cases "stop_requested s2 \<or> summary_requested s2")
    case True
    with clear ms r show ?thesis by (simp add: turn_start_def)
  next
    case flags: False
    show ?thesis
    proof (cases "?succeeded \<and> int i < total_speeches - 1")
      case no: False
      have "grows s2 (snd (speaking_loop w total_speeches speeches_per_round (i + 1) rest s2))"
        using speaking_loop_result [OF known' [of s2]] by simp
      moreover have "speaking_loop w total_speeches speeches_per_round i (member_name # rest) s =
          speaking_loop w total_speeches speeches_per_round (i + 1) rest s2"
        using clear ms r flags no by (auto simp: turn_start_def)
      ultimately show ?thesis by simp
    next
      case yes: True
      obtain r3 s3 where as: "after_speech_summary w s2 = (r3, s3)"
        by (cases "after_speech_summary w s2")
      from after_speech_summary_grows [of s2 w] as have g3: "grows s2 s3" by simp
      show ?thesis
      proof (cases r3)
        case (Some e)
        have "speaking_loop w total_speeches speeches_per_round i (member_name # rest) s = (Some e, s3)"
          using clear ms r flags yes as Some by (auto simp: turn_start_def)
        with g3 show ?thesis by simp
      next
        case None
        have "grows s3 (snd (speaking_loop w total_speeches speeches_per_round (i + 1) rest s3))"
          using speaking_loop_result [OF known' [OF g3]] by simp
        with g3 have "grows s2 (snd (speaking_loop w total_speeches speeches_per_round (i + 1) rest s3))"
          by (rule grows_trans)
        moreover have "speaking_loop w total_speeches speeches_per_round i (member_name # rest) s =
            speaking_loop w total_speeches speeches_per_round (i + 1) rest s3"
          using clear ms r flags yes as None by (auto simp: turn_start_def)
        ultimately show ?thesis by simp
      qed
    qed
  qed
  with ms show ?thesis by simp
qed

subsection \<open>C2: a failed turn\<close>

text \<open>
  C2, as stated, fails where it says that the next scheduled speaker still runs: after every
  turn, failed or not, the loop checks the stop and the summarize-now flags and breaks when
  one is set. Here Bob's turn fails (announcement, then the warning), the stop flag is
  raised during the turn, and Alice, scheduled next, never gets a turn: no event carries
  speech index 2 and the run goes on to the final summary.
\<close>

theorem failed_turn_then_stop_counterexample:
  "speaking_order stop_in_turn_world (Session_init two_members) = [''Bob'', ''Alice''] \<and>
   filter (\<lambda>ev. speech_index ev = 1 \<and> event_type ev = ''system'')
     (emitted (run stop_in_turn_world (Session_init two_members))) =
     [start_event ''Bob'' (get_hat_info GREEN) 1,
      warning_event ''Bob'' (Exn RateLimitError ''429'') 1] \<and>
   filter (\<lambda>ev. speech_index ev = 2) (emitted (run stop_in_turn_world (Session_init two_members))) = [] \<and>
   map message_type (history (run stop_in_turn_world (Session_init two_members))) =
     [OPENING, FINAL_SUMMARY]"
  by code_simp

text \<open>
  C2, amended. In a turn of a scheduled member in which the provider call ends with an
  exception \<open>e\<close> (after its retries): the history is unchanged; the events of the turn are
  the announcement, the opening event of the stream, one event per fragment received, and
  one warning, so that its system events are the announcement and exactly one warning; and,
  unless the stop or the summarize-now flag has been raised by the end of the turn, the loop
  goes on with the rest of the order without an after-speech summary, so that the next
  scheduled speaker, if there is one, is announced with the next speech index.
\<close>

theorem failed_turn_is_skipped:
  assumes known: "\<forall>name \<in> set (member_name # rest). map_of (session_members s) name \<noteq> None"
    and fails: "snd (Member_speak w (Suc (speech_count s))) = Some e"
  shows "\<exists>hi.
     (let n = Suc (speech_count s);
          s2 = snd (member_speak w member_name (turn_start i speeches_per_round s));
          evs = turn_events member_name hi n (fst (Member_speak w n)) (Some e)
      in history s2 = history s \<and>
         emitted s2 = emitted s @ evs \<and>
         filter (\<lambda>ev. event_type ev = ''system'') evs =
           [start_event member_name hi n, warning_event member_name e n] \<and>
         (\<not> stop_requested s2 \<and> \<not> summary_requested s2 \<longrightarrow>
          speaking_loop w total_speeches speeches_per_round i (member_name # rest) s =
            speaking_loop w total_speeches speeches_per_round (Suc i) rest s2 \<and>
          (rest \<noteq> [] \<longrightarrow>
           (\<exists>hi'. start_event (hd rest) hi' (Suc n) \<in>
              set (emitted (snd (speaking_loop w total_speeches speeches_per_round i
                                   (member_name # rest) s)))))))"
proof -
  let ?s1 = "turn_start i speeches_per_round s"
  let ?n = "Suc (speech_count s)"
  let ?s2 = "snd (member_speak w member_name ?s1)"
  from known obtain member where
    member: "map_of (session_members ?s1) member_name = Some member" by auto
  have n: "speech_count ?s1 = ?n" and es: "emitted ?s1 = emitted s" and hs: "history ?s1 = history s"
    and ss: "session_members ?s1 = session_members s" by simp_all
  from member_speak_turn [OF member, of w] obtain hat where
    r: "fst (member_speak w member_name ?s1) = None"
    and e0: "emitted ?s2 = emitted ?s1 @ turn_events member_name (get_hat_info hat) (speech_count ?s1)
                     (fst (Member_speak w (speech_count ?s1))) (snd (Member_speak w (speech_count ?s1)))"
    and h0: "history ?s2 = history ?s1 @
       (case snd (Member_speak w (speech_count ?s1)) of
          Some e \<Rightarrow> []
        | None \<Rightarrow> [speech_entry member_name member (get_hat_info hat)
                     (concat (fst (Member_speak w (speech_count ?s1))))])"
    and sm0: "session_members ?s2 = session_members ?s1"
    and sc0: "speech_count ?s2 = speech_count ?s1"
    by blast
  note e = e0 [unfolded n es] and h = h0 [unfolded n hs] and sm = sm0 [unfolded ss]
    and sc = sc0 [unfolded n]
  let ?hi = "get_hat_info hat"
  let ?evs = "turn_events member_name ?hi ?n (fst (Member_speak w ?n)) (Some e)"
  have h': "history ?s2 = history s" using h fails by simp
  have e': "emitted ?s2 = emitted s @ ?evs" using e fails by simp
  have sys: "filter (\<lambda>ev. event_type ev = ''system'') ?evs =
      [start_event member_name ?hi ?n, warning_event member_name e ?n]"
    by (simp add: turn_events_def start_event_def warning_event_def member_event_def
        SessionEvent_init_def filter_empty_conv)
  have not_succeeded: "\<not> list_ex (\<lambda>event. is_final event \<and> event_type event = ''member'')
                         (drop (length (emitted ?s1)) (emitted ?s2))"
    unfolding e' by (simp add: list_ex_iff turn_events_def start_event_def warning_event_def
        member_event_def SessionEvent_init_def) 
  have loop: "speaking_loop w total_speeches speeches_per_round i (member_name # rest) s =
        speaking_loop w total_speeches speeches_per_round (Suc i) rest ?s2 \<and>
      (rest \<noteq> [] \<longrightarrow>
       (\<exists>hi'. start_event (hd rest) hi' (Suc ?n) \<in>
             set (emitted (snd (speaking_loop w total_speeches speeches_per_round i
                                  (member_name # rest) s)))))"
    if after: "\<not> stop_requested ?s2" "\<not> summary_requested ?s2"
  proof -
    have clear: "\<not> stop_requested s" "\<not> summary_requested s"
      using after member_speak_flags_mono [of ?s1 w member_name] by auto
    obtain r' s2' where ms: "member_speak w member_name ?s1 = (r', s2')"
      by (cases "member_speak w member_name ?s1")
    with r have r': "r' = None" and s2': "s2' = ?s2" by simp_all
    have after': "\<not> stop_requested s2'" "\<not> summary_requested s2'"
      using after by (simp_all add: s2')
    have not_succeeded': "\<not> list_ex (\<lambda>event. is_final event \<and> event_type event = ''member'')
                           (drop (length (emitted ?s1)) (emitted s2'))"
      using not_succeeded by (simp add: s2')
    have "speaking_loop w total_speeches speeches_per_round i (member_name # rest) s =
        speaking_loop w total_speeches speeches_per_round (Suc i) rest s2'"
      using clear after' not_succeeded' ms r' by (auto simp: turn_start_def)
    then have step: "speaking_loop w total_speeches speeches_per_round i (member_name # rest) s =
        speaking_loop w total_speeches speeches_per_round (Suc i) rest ?s2"
      by (simp only: s2')
    have nxt: "\<exists>hi'. start_event (hd rest) hi' (Suc ?n) \<in>
               set (emitted (snd (speaking_loop w total_speeches speeches_per_round i
                                    (member_name # rest) s)))" if "rest \<noteq> []"
    proof -
      from that obtain nx rest' where rest: "rest = nx # rest'" by (cases rest) auto
      let ?s3 = "turn_start (Suc i) speeches_per_round ?s2"
      have known2: "\<forall>name \<in> set (nx # rest'). map_of (session_members ?s2) name \<noteq> None"
        using known sm by (simp add: rest)
      then obtain member' where
        member': "map_of (session_members ?s3) nx = Some member'" by auto
      have n3: "speech_count ?s3 = Suc ?n" by (simp add: sc)
      from member_speak_turn [OF member', of w] obtain hat' where
        e3: "emitted (snd (member_speak w nx ?s3)) =
           emitted ?s3 @ turn_events nx (get_hat_info hat') (speech_count ?s3)
                       (fst (Member_speak w (speech_count ?s3))) (snd (Member_speak w (speech_count ?s3)))"
        by blast
      have mem: "start_event nx (get_hat_info hat') (Suc ?n) \<in> set (emitted (snd (member_speak w nx ?s3)))"
        unfolding e3 n3 by (simp add: turn_events_def)
      have "grows (snd (member_speak w nx ?s3))
             (snd (speaking_loop w total_speeches speeches_per_round (Suc i) (nx # rest') ?s2))"
        using known2 after by (rule speaking_loop_first_turn)
      then have "prefix (emitted (snd (member_speak w nx ?s3)))
          (emitted (snd (speaking_loop w total_speeches speeches_per_round (Suc i) (nx # rest') ?s2)))"
        unfolding grows_def by (elim conjE)
      then have "set (emitted (snd (member_speak w nx ?s3))) \<subseteq>
          set (emitted (snd (speaking_loop w total_speeches speeches_per_round (Suc i) (nx # rest') ?s2)))"
        by (rule set_mono_prefix)
      with mem have "start_event nx (get_hat_info hat') (Suc ?n) \<in>
          set (emitted (snd (speaking_loop w total_speeches speeches_per_round (Suc i) (nx # rest') ?s2)))"
        by (rule rev_subsetD)
      then have "\<exists>hi'. start_event nx hi' (Suc ?n) \<in>
          set (emitted (snd (speaking_loop w total_speeches speeches_per_round (Suc i) (nx # rest') ?s2)))"
        by (rule exI)
      moreover have "speaking_loop w total_speeches speeches_per_round i (member_name # nx # rest') s =
          speaking_loop w total_speeches speeches_per_round (Suc i) (nx # rest') ?s2"
        using step by (simp only: rest)
      ultimately show ?thesis by (simp only: rest list.sel)
    qed
    from step nxt show ?thesis by blast
  qed
  show ?thesis
    unfolding Let_def using h' e' sys loop by (intro exI [of _ ?hi]) blast
qed

theorem failed_turn_is_skipped_witness:
  "map_of (session_members (Session_init two_members)) ''Bob'' \<noteq> None \<and>
   map_of (session_members (Session_init two_members)) ''Alice'' \<noteq> None \<and>
   snd (Member_speak first_turn_fails_world (Suc (speech_count (Session_init two_members)))) =
     Some (Exn RateLimitError ''429'') \<and>
   \<not> stop_requested (snd (member_speak first_turn_fails_world ''Bob''
                           (turn_start 0 2 (Session_init two_members)))) \<and>
   \<not> summary_requested (snd (member_speak first_turn_fails_world ''Bob''
                           (turn_start 0 2 (Session_init two_members)))) \<and>
   history (snd (member_speak first_turn_fails_world ''Bob''
                   (turn_start 0 2 (Session_init two_members)))) = [] \<and>
   (\<exists>hi'. start_event ''Alice'' hi' 2 \<in>
      set (emitted (snd (speaking_loop first_turn_fails_world 2 2 0 [''Bob'', ''Alice'']
                           (Session_init two_members)))))"
proof -
  have k1: "map_of (session_members (Session_init two_members)) ''Bob'' \<noteq> None"
    by code_simp
  have k2: "map_of (session_members (Session_init two_members)) ''Alice'' \<noteq> None"
    by code_simp
  have known: "\<forall>name \<in> set (''Bob'' # [''Alice'']).
      map_of (session_members (Session_init two_members)) name \<noteq> None"
    using k1 k2 by simp
  have fails: "snd (Member_speak first_turn_fails_world (Suc (speech_count (Session_init two_members)))) =
     Some (Exn RateLimitError ''429'')"
    by code_simp
  have a1: "\<not> stop_requested (snd (member_speak first_turn_fails_world ''Bob''
                           (turn_start 0 2 (Session_init two_members))))"
    by code_simp
  have a2: "\<not> summary_requested (snd (member_speak first_turn_fails_world ''Bob''
                           (turn_start 0 2 (Session_init two_members))))"
    by code_simp
  have h0: "history (Session_init two_members) = []"
    and c0: "speech_count (Session_init two_members) = 0" by (simp_all add: Session_init_def)
  from failed_turn_is_skipped [OF known fails, where total_speeches = 2 and i = 0
      and speeches_per_round = 2]
  obtain hi :: hat_info where
    h: "history (snd (member_speak first_turn_fails_world ''Bob''
                   (turn_start 0 2 (Session_init two_members)))) = history (Session_init two_members)"
    and n: "\<not> stop_requested (snd (member_speak first_turn_fails_world ''Bob''
                           (turn_start 0 2 (Session_init two_members)))) \<and>
            \<not> summary_requested (snd (member_speak first_turn_fails_world ''Bob''
                           (turn_start 0 2 (Session_init two_members)))) \<longrightarrow>
      speaking_loop first_turn_fails_world 2 2 0 (''Bob'' # [''Alice'']) (Session_init two_members) =
        speaking_loop first_turn_fails_world 2 2 (Suc 0) [''Alice'']
          (snd (member_speak first_turn_fails_world ''Bob'' (turn_start 0 2 (Session_init two_members)))) \<and>
      ([''Alice''] \<noteq> [] \<longrightarrow>
      (\<exists>hi'. start_event (hd [''Alice'']) hi' (Suc (Suc (speech_count (Session_init two_members)))) \<in>
         set (emitted (snd (speaking_loop first_turn_fails_world 2 2 0 (''Bob'' # [''Alice''])
                           (Session_init two_members))))))"
    unfolding Let_def by blast
  from n a1 a2 have "[''Alice''] \<noteq> [] \<longrightarrow>
      (\<exists>hi'. start_event (hd [''Alice'']) hi' (Suc (Suc (speech_count (Session_init two_members)))) \<in>
         set (emitted (snd (speaking_loop first_turn_fails_world 2 2 0 (''Bob'' # [''Alice''])
                           (Session_init two_members)))))"
    by blast
  then have nx: "\<exists>hi'. start_event ''Alice'' hi' 2 \<in>
      set (emitted (snd (speaking_loop first_turn_fails_world 2 2 0 [''Bob'', ''Alice'']
                           (Session_init two_members))))"
    by (simp add: c0 numeral_2_eq_2)
  show ?thesis
  proof (intro conjI)
    show "history (snd (member_speak first_turn_fails_world ''Bob''
                   (turn_start 0 2 (Session_init two_members)))) = []"
      using h by (simp only: h0)
  qed (rule k1 k2 fails a1 a2 nx)+
qed


section \<open>Properties of a whole run\<close>

lemma opening_chunks_no_stop:
  assumes "\<not> stop_requested s"
    and "\<forall>k. length (emitted s) < k \<and> k \<le> length (emitted s) + length cs \<longrightarrow> \<not> fst (signals w k)"
  shows "opening_chunks w mod_name cs s =
           (False, foldl (\<lambda>t c. yield w (moderator_event mod_name c) t) s cs) \<and>
         \<not> stop_requested (foldl (\<lambda>t c. yield w (moderator_event mod_name c) t) s cs)"
  using assms
proof (induction cs arbitrary: s)
  case Nil
  then show ?case by simp
next
  case (Cons c cs)
  let ?s' = "yield w (moderator_event mod_name c) s"
  have ns: "\<not> stop_requested ?s'"
    using Cons.prems by (simp add: yield_flags)
  have "\<forall>k. length (emitted ?s') < k \<and> k \<le> length (emitted ?s') + length cs \<longrightarrow> \<not> fst (signals w k)"
    using Cons.prems(2) by simp
  from Cons.IH [OF ns this] ns show ?case by simp
qed

lemma moderator_opening_done:
  assumes "\<not> stop_requested s"
    and "\<forall>k. length (emitted s) < k \<and> k \<le> length (emitted s) + length (fst (Moderator_opening w)) + 2
           \<longrightarrow> \<not> fst (signals w k)"
    and "snd (Moderator_opening w) = None"
  shows "\<exists>s'. moderator_opening w s = (Done, s') \<and>
           history s' = history s @ [opening_entry (moderator_display_name (moderator (config s)))
                                       (concat (fst (Moderator_opening w)))] \<and>
           config s' = config s \<and> session_members s' = session_members s \<and>
           state s' = state s"
proof -
  let ?mn = "moderator_display_name (moderator (config s))"
  obtain chunks err where mo: "Moderator_opening w = (chunks, err)" by (cases "Moderator_opening w")
  with assms(3) have err: "err = None" by simp
  let ?s1 = "yield w (moderator_event ?mn []) s"
  have n1: "\<not> stop_requested ?s1" using assms(1,2) by (simp add: yield_flags)
  have "\<forall>k. length (emitted ?s1) < k \<and> k \<le> length (emitted ?s1) + length chunks \<longrightarrow> \<not> fst (signals w k)"
    using assms(2) by (simp add: mo)
  from opening_chunks_no_stop [OF n1 this, of ?mn]
  have oc: "opening_chunks w ?mn chunks ?s1 =
           (False, foldl (\<lambda>t c. yield w (moderator_event ?mn c) t) ?s1 chunks)"
    and n2: "\<not> stop_requested (foldl (\<lambda>t c. yield w (moderator_event ?mn c) t) ?s1 chunks)"
    by simp_all
  let ?s2 = "foldl (\<lambda>t c. yield w (moderator_event ?mn c) t) ?s1 chunks"
  let ?s3 = "add_message MODERATOR (concat chunks) ?mn OPENING [] [] [] ?s2"
  let ?s4 = "yield w (moderator_final_event ?mn (concat chunks)) ?s3"
  have n4: "\<not> stop_requested ?s4"
    using n2 assms(2) by (simp add: yield_flags mo)
  have "moderator_opening w s = (Done, ?s4)"
    using n1 oc n4 by (simp add: moderator_opening_def Let_def mo err)
  moreover have "history ?s4 = history s @ [opening_entry ?mn (concat chunks)]"
    by (simp add: opening_entry_def)
  moreover have "config ?s4 = config s" "session_members ?s4 = session_members s" "state ?s4 = state s"
    by simp_all
  ultimately show ?thesis by (simp add: mo)
qed

lemma final_summary_result:
  assumes "out_raised (Moderator_final_summary w (moderator (config s)) (topic (config s)) (history s)) = None"
  shows "\<exists>s' c. final_summary w s = (None, s') \<and> state s' = SUMMARIZING \<and>
           history s' = history s @ [final_summary_entry (moderator_display_name (moderator (config s))) c]"
  using assms
  by (simp add: final_summary_def Let_def final_summary_entry_def)


subsection \<open>C1: the final summary\<close>

text \<open>
  C1, as stated, fails. While \<^verbatim>\<open>run\<close> consumes the opening it returns as soon as the stop
  flag is set: with the stop button pressed after the second event, the run ends with no
  final summary, an empty history, and the state still RUNNING. The summarize-now button
  pressed at the same moment leads to the final summary and the state FINISHED, so the two
  requests are not observably identical.
\<close>

theorem run_stop_in_opening_counterexample:
  "state (run stop_in_opening_world (Session_init two_members)) = RUNNING \<and>
   history (run stop_in_opening_world (Session_init two_members)) = [] \<and>
   state (run summarize_in_opening_world (Session_init two_members)) = FINISHED \<and>
   map message_type (history (run summarize_in_opening_world (Session_init two_members))) =
     [OPENING, FINAL_SUMMARY]"
  by code_simp

text \<open>
  C1, amended. If the stop flag is not raised while the opening is streamed (up to its
  final event) and no call of the moderator raises, then, however the speaking loop ends
  (the schedule completes, or the stop or the summarize-now flag is raised during the
  loop), the run executes the final-summary step from the state \<open>s3\<close> the loop ends in:
  that step sets the state to SUMMARIZING and appends one FINAL\_SUMMARY entry, the run then
  sets the state to FINISHED, and no other FINAL\_SUMMARY entry is appended during the run.
\<close>

theorem run_reaches_final_summary:
  assumes no_stop: "\<forall>n \<le> length (fst (Moderator_opening w)) + 3. \<not> fst (signals w n)"
    and ok: "moderator_calls_succeed w"
  shows "\<exists>s3 s4 mid c.
           final_summary w s3 = (None, s4) \<and> state s4 = SUMMARIZING \<and>
           run w s = s4\<lparr>state := FINISHED\<rparr> \<and>
           history s3 = history s @ mid \<and>
           (\<forall>m \<in> set mid. message_type m \<noteq> FINAL_SUMMARY) \<and>
           history (run w s) =
             history s3 @ [final_summary_entry (moderator_display_name (moderator (config s))) c]"
proof -
  from ok have ok1: "snd (Moderator_opening w) = None"
    and ok2: "\<forall>n. snd (Moderator_after_speech_summary w n) = None"
    and ok3: "\<And>messages. out_raised (chat_with_optional_search w messages 5) = None"
    by (simp_all add: moderator_calls_succeed_def)
  define s0 where "s0 = s\<lparr>state := RUNNING, stop_requested := False, summary_requested := False,
                 speech_count := 0, latest_summary := [],
                 hat_manager := reset (hat_manager s), current_round := 1,
                 current_hat_info := None, emitted := []\<rparr>"
  define ev where "ev = (SessionEvent_init ''system'')\<lparr>ev_content :=
                 [CHR 0xE8, CHR 0xA8, CHR 0x8E, CHR 0xE8, CHR 0xAB, CHR 0x96, CHR 0xE9, CHR 0x96,
                  CHR 0x8B, CHR 0xE5, CHR 0xA7, CHR 0x8B]\<rparr>"
  define s1 where "s1 = yield w ev s0"
  have f0: "history s0 = history s" "config s0 = config s" "emitted s0 = []" "\<not> stop_requested s0"
    by (simp_all add: s0_def)
  have f1: "history s1 = history s" "config s1 = config s" "length (emitted s1) = 1"
    by (simp_all add: s1_def f0)
  have n1: "\<not> stop_requested s1"
    using no_stop by (simp add: s1_def yield_flags f0)
  have "\<forall>k. length (emitted s1) < k \<and> k \<le> length (emitted s1) + length (fst (Moderator_opening w)) + 2
           \<longrightarrow> \<not> fst (signals w k)"
    using no_stop by (simp add: f1)
  from moderator_opening_done [OF n1 this ok1] obtain s2 where
    mo: "moderator_opening w s1 = (Done, s2)"
    and h2: "history s2 = history s1 @ [opening_entry (moderator_display_name (moderator (config s1)))
                                       (concat (fst (Moderator_opening w)))]"
    and c2: "config s2 = config s1" by blast
  let ?ts = "int (length (member_names s2)) * total_rounds (config s2)"
  let ?spr = "length (member_names s2)"
  obtain r3 s3 where lp: "speaking_loop w ?ts ?spr 0 (speaking_order w s2) s2 = (r3, s3)"
    by (cases "speaking_loop w ?ts ?spr 0 (speaking_order w s2) s2")
  have kn: "\<forall>member_name \<in> set (speaking_order w s2).
      map_of (session_members s2) member_name \<noteq> None"
    by (rule speaking_order_known)
  from speaking_loop_result [OF kn, where w = w and total_speeches = ?ts
      and speeches_per_round = ?spr and i = 0] ok2 lp
  have g: "grows s2 s3" and r3: "r3 = None" by simp_all
  from g obtain mid where c3: "config s3 = config s2" and h3: "history s3 = history s2 @ mid"
    and mid: "\<forall>m \<in> set mid. message_type m = SPEECH \<or> message_type m = ROUND_SUMMARY"
    unfolding grows_def by blast
  have "out_raised (Moderator_final_summary w (moderator (config s3)) (topic (config s3)) (history s3)) = None"
    by (simp add: Moderator_final_summary_def ok3)
  from final_summary_result [OF this] obtain s4 c where
    fs: "final_summary w s3 = (None, s4)" and st4: "state s4 = SUMMARIZING"
    and h4: "history s4 = history s3 @ [final_summary_entry (moderator_display_name (moderator (config s3))) c]"
    by blast
  have cfg: "config s3 = config s" by (simp add: c3 c2 f1)
  have body: "run_body w s0 = (Done, s4\<lparr>state := FINISHED\<rparr>)"
    using mo lp r3 fs
    by (simp add: run_body_def Let_def s1_def [symmetric] ev_def [symmetric])
  have run: "run w s = s4\<lparr>state := FINISHED\<rparr>"
    unfolding run_def Let_def s0_def [symmetric] body by simp
  let ?mid = "opening_entry (moderator_display_name (moderator (config s1)))
                (concat (fst (Moderator_opening w))) # mid"
  have "history s3 = history s @ ?mid" by (simp add: h3 h2 f1)
  moreover have "\<forall>m \<in> set ?mid. message_type m \<noteq> FINAL_SUMMARY"
    using mid by (auto simp: opening_entry_def)
  moreover have "history (run w s) =
      history s3 @ [final_summary_entry (moderator_display_name (moderator (config s))) c]"
    by (simp add: run h4 cfg)
  ultimately show ?thesis using fs st4 run by blast
qed


theorem run_reaches_final_summary_witness:
  "fst (Moderator_opening stop_in_loop_world) = [''Welcome''] \<and>
   \<not> fst (signals stop_in_loop_world 0) \<and> \<not> fst (signals stop_in_loop_world 1) \<and>
   \<not> fst (signals stop_in_loop_world 2) \<and> \<not> fst (signals stop_in_loop_world 3) \<and>
   \<not> fst (signals stop_in_loop_world 4) \<and>
   moderator_calls_succeed stop_in_loop_world \<and>
   state (run stop_in_loop_world (Session_init two_members)) = FINISHED \<and>
   map message_type (history (run stop_in_loop_world (Session_init two_members))) =
     [OPENING, SPEECH, FINAL_SUMMARY]"
proof -
  have o: "fst (Moderator_opening stop_in_loop_world) = [''Welcome'']" by code_simp
  have sg: "fst (signals stop_in_loop_world n) = (n = 6)" for n
    by (simp add: stop_in_loop_world_def quiet_world_def)
  have no_stop: "\<forall>n \<le> length (fst (Moderator_opening stop_in_loop_world)) + 3.
      \<not> fst (signals stop_in_loop_world n)"
    by (simp add: o sg)
  have m1: "snd (Moderator_opening stop_in_loop_world) = None" by code_simp
  have ss: "summary_stream stop_in_loop_world n = (\<lambda>a. ([[Some ''So far'']], None))" for n
    by (simp add: stop_in_loop_world_def quiet_world_def)
  have "snd (stream_chat 5 (\<lambda>a. ([[Some ''So far'']], None))) = None" by code_simp
  then have m2: "\<forall>n. snd (Moderator_after_speech_summary stop_in_loop_world n) = None"
    by (auto simp: Moderator_after_speech_summary_def ss split: prod.splits)
  have ct: "snd (chat_with_tools 5 (final_tools stop_in_loop_world)) =
      Inr \<lparr>resp_content = ''All said'', tool_calls = None, finish_reason = ''stop''\<rparr>"
    by code_simp
  have m3: "\<forall>messages. out_raised (chat_with_optional_search stop_in_loop_world messages 5) = None"
    by (simp add: chat_with_optional_search_def ct)
  have ok: "moderator_calls_succeed stop_in_loop_world"
    unfolding moderator_calls_succeed_def using m1 m2 m3 by blast
  from run_reaches_final_summary [OF no_stop ok, of "Session_init two_members"]
  obtain s4 where "run stop_in_loop_world (Session_init two_members) = s4\<lparr>state := FINISHED\<rparr>"
    by blast
  then have fin: "state (run stop_in_loop_world (Session_init two_members)) = FINISHED"
    by simp
  have hist: "map message_type (history (run stop_in_loop_world (Session_init two_members))) =
     [OPENING, SPEECH, FINAL_SUMMARY]"
    by code_simp
  show ?thesis using o ok fin hist by (simp add: sg)
qed

subsection \<open>C4: the role of the first recorded speech\<close>

text \<open>
  C4. The restricted draw is made exactly when the speech counter is 1, and it never fails
  (\<open>member_speak_turn\<close>, \<open>assign_hat_total\<close>). The counter also counts failed turns.
  In this run of two members the provider fails the first turn (Bob, who drew GREEN, gets
  the warning and no entry); the second turn has counter 2, draws from the whole remaining
  pool and records Alice's speech, the first SPEECH entry of the history, with the role
  BLACK, which is not in the restricted subset.
\<close>

theorem first_speech_after_failed_turn:
  "map (\<lambda>m. (message_type m, speaker_name m, hat_color m))
     (history (run first_turn_fails_world (Session_init two_members))) =
     [(OPENING, ''Max'', []), (SPEECH, ''Alice'', ''black''), (FINAL_SUMMARY, ''Max'', [])] \<and>
   filter (\<lambda>ev. event_type ev = ''system'' \<and> speech_index ev = 1)
     (emitted (run first_turn_fails_world (Session_init two_members))) =
     [start_event ''Bob'' (get_hat_info GREEN) 1,
      warning_event ''Bob'' (Exn RateLimitError ''429'') 1]"
  by code_simp


end
